theory Spec2Isabelle
  imports Complex_Main "HOL-Library.Monad_Syntax"
begin

section \<open>Numeric model\<close>

text \<open>
  The kernels compute on C++ \<open>double\<close>. They are embedded over \<^typ>\<open>real\<close>: the
  formulas of the source are evaluated in exact real arithmetic. The one exception is
  the shift between the ellipsoid and the sphere of the QSC kernel, whose square root
  sits on the edge of its domain: its operations are embedded with the rounding of
  \<open>double\<close> (see \<open>double_round\<close> below).
\<close>

subsection \<open>Series expansion: the scale factors (util/series\_expansion.hpp)\<close>

text \<open>
  \<open>evaluate_A1<SeriesOrder>(eps)\<close>. The local \<open>t\<close> is declared without an initial
  value and assigned by a \<open>switch (SeriesOrder/2)\<close> whose labels are \<open>0, 1, 2, 3, 4\<close>;
  there is no \<open>default\<close>. \<open>None\<close> is the read of the unassigned \<open>t\<close>.
\<close>

definition evaluate_A1_t :: "nat \<Rightarrow> real \<Rightarrow> real option" where
  "evaluate_A1_t SeriesOrder eps =
     (let eps2 = eps * eps; k = SeriesOrder div 2 in
      if k = 0 then Some 0
      else if k = 1 then Some (eps2 / 4)
      else if k = 2 then Some (eps2 * (eps2 + 16) / 64)
      else if k = 3 then Some (eps2 * (eps2 * (eps2 + 4) + 64) / 256)
      else if k = 4 then Some (eps2 * (eps2 * (eps2 * (25 * eps2 + 64) + 256) + 4096) / 16384)
      else None)"

definition evaluate_A1 :: "nat \<Rightarrow> real \<Rightarrow> real option" where
  "evaluate_A1 SeriesOrder eps =
     (case evaluate_A1_t SeriesOrder eps of
        None \<Rightarrow> None
      | Some t \<Rightarrow> Some ((t + eps) / (1 - eps)))"

text \<open>
  \<open>evaluate_A2<SeriesOrder>(eps)\<close>: the same shape, but the last label is \<open>default\<close>,
  so \<open>t\<close> is assigned for every order.
\<close>

definition evaluate_A2_t :: "nat \<Rightarrow> real \<Rightarrow> real option" where
  "evaluate_A2_t SeriesOrder eps =
     (let eps2 = eps * eps; k = SeriesOrder div 2 in
      if k = 0 then Some 0
      else if k = 1 then Some (- 3 * eps2 / 4)
      else if k = 2 then Some ((- 7 * eps2 - 48) * eps2 / 64)
      else if k = 3 then Some (eps2 * ((- 11 * eps2 - 28) * eps2 - 192) / 256)
      else Some (eps2 * (eps2 * ((- 375 * eps2 - 704) * eps2 - 1792) - 12288) / 16384))"

definition evaluate_A2 :: "nat \<Rightarrow> real \<Rightarrow> real option" where
  "evaluate_A2 SeriesOrder eps =
     (case evaluate_A2_t SeriesOrder eps of
        None \<Rightarrow> None
      | Some t \<Rightarrow> Some ((t - eps) / (1 + eps)))"

subsection \<open>Series expansion: Clenshaw summation (util/series\_expansion.hpp)\<close>

text \<open>
  \<open>coeffs[--index]\<close> on a \<open>size_t\<close> index: the index is decremented first and the
  element read. \<open>None\<close> is a read outside the array (also after the decrement of 0
  has wrapped around).
\<close>

definition pre_dec_read :: "real list \<Rightarrow> nat \<Rightarrow> (nat \<times> real) option" where
  "pre_dec_read coeffs index =
     (if index = 0 then None
      else if length coeffs \<le> index - 1 then None
      else Some (index - 1, coeffs ! (index - 1)))"

text \<open>
  The loop \<open>while (n--) { k1 = ar*k0 - k1 + coeffs[--index]; k0 = ar*k1 - k0 + coeffs[--index]; }\<close>
  on the state \<open>(index, k0, k1)\<close>; the value is the final \<open>k0\<close>.
\<close>

fun sin_cos_loop :: "nat \<Rightarrow> real \<Rightarrow> real list \<Rightarrow> nat \<Rightarrow> real \<Rightarrow> real \<Rightarrow> real option" where
  "sin_cos_loop 0 ar coeffs index k0 k1 = Some k0"
| "sin_cos_loop (Suc n) ar coeffs index k0 k1 =
     (case pre_dec_read coeffs index of
        None \<Rightarrow> None
      | Some (index1, ca) \<Rightarrow>
          (let k1' = ar * k0 - k1 + ca in
           case pre_dec_read coeffs index1 of
             None \<Rightarrow> None
           | Some (index2, cb) \<Rightarrow>
               (let k0' = ar * k1' - k0 + cb in
                sin_cos_loop n ar coeffs index2 k0' k1')))"

text \<open>
  \<open>sin_cos_series(sinx, cosx, coeffs)\<close>; \<open>Coeffs::static_size\<close> is the length of the
  list. With static size 0 the \<open>size_t\<close> value \<open>static_size - 1\<close> wraps around and the
  first read is outside the array.
\<close>

definition sin_cos_series :: "real \<Rightarrow> real \<Rightarrow> real list \<Rightarrow> real option" where
  "sin_cos_series sinx cosx coeffs =
     (if coeffs = [] then None
      else
        (let n = length coeffs - 1;
             index = n + 1;
             ar = 2 * (cosx - sinx) * (cosx + sinx)
         in case (if odd n then pre_dec_read coeffs index else Some (index, 0)) of
              None \<Rightarrow> None
            | Some (index', k0) \<Rightarrow>
                (case sin_cos_loop (n div 2) ar coeffs index' k0 0 of
                   None \<Rightarrow> None
                 | Some k0' \<Rightarrow> Some (2 * sinx * cosx * k0'))))"

text \<open>
  The specification of \<open>sin_cos_series\<close>, in the words of its documentation:
  \<open>y = sum(c[i] * sin(2*i * x), i, 1, n)\<close>, summed term by term.
\<close>

definition direct_sin_sum :: "real list \<Rightarrow> nat \<Rightarrow> real \<Rightarrow> real" where
  "direct_sin_sum c n x = (\<Sum>i = 1..n. c ! i * sin (2 * real i * x))"

subsection \<open>Library functions of \<open><cmath>\<close> and Boost.Math\<close>

text \<open>
  \<open>atan2(y, x)\<close> on the reals: the angle of the point \<open>(x, y)\<close> in \<open>(-\<pi>, \<pi>]\<close>,
  and 0 at the origin.
\<close>

definition atan2 :: "real \<Rightarrow> real \<Rightarrow> real" where
  "atan2 y x =
     (if 0 < x then arctan (y / x)
      else if x < 0 then (if 0 \<le> y then arctan (y / x) + pi else arctan (y / x) - pi)
      else if 0 < y then pi / 2
      else if y < 0 then - (pi / 2)
      else 0)"

definition hypot :: "real \<Rightarrow> real \<Rightarrow> real" where
  "hypot x y = sqrt (x * x + y * y)"

text \<open>
  Operations whose \<open>double\<close> result is not a real number outside their domain
  (a quotient by zero, the square root of a negative number, \<open>acos\<close> outside
  \<open>[-1, 1]\<close>): \<open>None\<close> stands for infinity or NaN.
\<close>

definition fdiv :: "real \<Rightarrow> real \<Rightarrow> real option" where
  "fdiv x y = (if y = 0 then None else Some (x / y))"

definition fsqrt :: "real \<Rightarrow> real option" where
  "fsqrt x = (if x < 0 then None else Some (sqrt x))"

definition facos :: "real \<Rightarrow> real option" where
  "facos x = (if x < - 1 then None else if 1 < x then None else Some (arccos x))"

subsection \<open>Arithmetic of \<open>double\<close>\<close>

text \<open>
  The nearest integer, ties to the even one.
\<close>

definition round_even :: "real \<Rightarrow> int" where
  "round_even y =
     (let f = \<lfloor>y\<rfloor>;
          d = y - of_int f
      in if d < 1 / 2 then f
         else if 1 / 2 < d then f + 1
         else if even f then f
         else f + 1)"

text \<open>
  The \<open>double\<close> nearest to a real number (IEEE 754 binary64, round to nearest, ties
  to even): 53 significant bits, so a number of magnitude in \<open>[2^k, 2^(k+1))\<close> is
  rounded to a multiple of \<open>2^(k-52)\<close>. The exponent is not bounded: overflow and
  subnormal numbers are outside the model.
\<close>

definition double_round :: "real \<Rightarrow> real" where
  "double_round x =
     (if x = 0 then 0
      else
        (let e = \<lfloor>log 2 \<bar>x\<bar>\<rfloor> - 52
         in of_int (round_even (x / 2 powr of_int e)) * 2 powr of_int e))"

text \<open>
  The operations \<open>+\<close>, \<open>-\<close>, \<open>*\<close>, \<open>/\<close> and \<open>sqrt\<close> on doubles: the exact result,
  rounded. As for \<open>fdiv\<close> and \<open>fsqrt\<close>, \<open>None\<close> stands for infinity or NaN.
\<close>

definition dadd :: "real \<Rightarrow> real \<Rightarrow> real" where
  "dadd x y = double_round (x + y)"

definition dsub :: "real \<Rightarrow> real \<Rightarrow> real" where
  "dsub x y = double_round (x - y)"

definition dmul :: "real \<Rightarrow> real \<Rightarrow> real" where
  "dmul x y = double_round (x * y)"

definition ddiv :: "real \<Rightarrow> real \<Rightarrow> real option" where
  "ddiv x y = (if y = 0 then None else Some (double_round (x / y)))"

definition dsqrt :: "real \<Rightarrow> real option" where
  "dsqrt x = (if x < 0 then None else Some (double_round (sqrt x)))"

subsection \<open>The shared parameter record and the helpers outside this source\<close>

datatype error = proj_exception int

text \<open>
  The fields of \<open>Parameters\<close> that the kernels read. \<open>par_params name\<close> is
  \<open>pj_param(par.params, name).f\<close>.
\<close>

record parameters =
  par_a :: real
  par_es :: real
  par_phi0 :: real
  par_lam0 :: real
  par_params :: "string \<Rightarrow> real"

text \<open>
  The meridian-arc helpers (\<open>impl/pj_mlfn.hpp\<close>, \<open>impl/pj_msfn.hpp\<close>) are not part
  of this source; the kernels are embedded over an arbitrary implementation of them.
  \<open>pj_enfn es\<close> is \<open>None\<close> where the source's \<open>pj_enfn(es, en)\<close> returns false, and
  the filled array otherwise.
\<close>

record pj_helpers =
  pj_enfn :: "real \<Rightarrow> real list option"
  pj_mlfn :: "real \<Rightarrow> real \<Rightarrow> real \<Rightarrow> real list \<Rightarrow> real"
  pj_inv_mlfn :: "real \<Rightarrow> real \<Rightarrow> real list \<Rightarrow> real"
  pj_msfn :: "real \<Rightarrow> real \<Rightarrow> real \<Rightarrow> real"

definition EPS10 :: real where
  "EPS10 = 1 / 10 ^ 10"

subsection \<open>Equidistant Conic (proj/eqdc.hpp)\<close>

record par_eqdc =
  eqdc_phi1 :: real
  eqdc_phi2 :: real
  eqdc_n :: real
  eqdc_rho0 :: real
  eqdc_c :: real
  eqdc_en :: "real list"
  eqdc_ellips :: bool

definition setup_eqdc :: "pj_helpers \<Rightarrow> parameters \<Rightarrow> error + par_eqdc" where
  "setup_eqdc H par =
     (let phi1 = par_params par ''rlat_1'';
          phi2 = par_params par ''rlat_2''
      in if \<bar>phi1 + phi2\<bar> < EPS10 then Inl (proj_exception (- 21))
         else
           (case pj_enfn H (par_es par) of
              None \<Rightarrow> Inl (proj_exception 0)
            | Some en \<Rightarrow>
                (let sinphi = sin phi1;
                     n = sinphi;
                     cosphi = cos phi1;
                     secant = (EPS10 \<le> \<bar>phi1 - phi2\<bar>)
                 in if 0 < par_es par then
                      (let m1 = pj_msfn H sinphi cosphi (par_es par);
                           ml1 = pj_mlfn H phi1 sinphi cosphi en;
                           n = (if secant then
                                  (m1 - pj_msfn H (sin phi2) (cos phi2) (par_es par)) /
                                  (pj_mlfn H phi2 (sin phi2) (cos phi2) en - ml1)
                                else n);
                           c = ml1 + m1 / n;
                           rho0 = c - pj_mlfn H (par_phi0 par) (sin (par_phi0 par))
                                        (cos (par_phi0 par)) en
                       in Inr \<lparr>eqdc_phi1 = phi1, eqdc_phi2 = phi2, eqdc_n = n,
                                eqdc_rho0 = rho0, eqdc_c = c, eqdc_en = en,
                                eqdc_ellips = True\<rparr>)
                    else
                      (let n = (if secant then (cosphi - cos phi2) / (phi2 - phi1) else n);
                           c = phi1 + cos phi1 / n;
                           rho0 = c - par_phi0 par
                       in Inr \<lparr>eqdc_phi1 = phi1, eqdc_phi2 = phi2, eqdc_n = n,
                                eqdc_rho0 = rho0, eqdc_c = c, eqdc_en = en,
                                eqdc_ellips = False\<rparr>))))"

definition eqdc_fwd :: "pj_helpers \<Rightarrow> par_eqdc \<Rightarrow> real \<times> real \<Rightarrow> real \<times> real" where
  "eqdc_fwd H pp lp =
     (let lp_lon = fst lp; lp_lat = snd lp;
          rho = eqdc_c pp -
                (if eqdc_ellips pp
                 then pj_mlfn H lp_lat (sin lp_lat) (cos lp_lat) (eqdc_en pp)
                 else lp_lat);
          lp_lon = lp_lon * eqdc_n pp;
          xy_x = rho * sin lp_lon;
          xy_y = eqdc_rho0 pp - rho * cos lp_lon
      in (xy_x, xy_y))"

text \<open>
  The inverse. The only quotient is \<open>atan2(xy_x, xy_y) / n\<close>, on the branch
  \<open>rho != 0\<close>; the result is \<open>(lp_lon, lp_lat)\<close>.
\<close>

definition eqdc_inv ::
  "pj_helpers \<Rightarrow> parameters \<Rightarrow> par_eqdc \<Rightarrow> real \<times> real \<Rightarrow> (real \<times> real) option" where
  "eqdc_inv H par pp xy =
     (let xy_x = fst xy;
          xy_y = eqdc_rho0 pp - snd xy;
          rho = hypot xy_x xy_y
      in if rho \<noteq> 0 then
           (let neg = (eqdc_n pp < 0);
                rho = (if neg then - rho else rho);
                xy_x = (if neg then - xy_x else xy_x);
                xy_y = (if neg then - xy_y else xy_y);
                lp_lat = eqdc_c pp - rho;
                lp_lat = (if eqdc_ellips pp
                          then pj_inv_mlfn H lp_lat (par_es par) (eqdc_en pp)
                          else lp_lat)
            in case fdiv (atan2 xy_x xy_y) (eqdc_n pp) of
                 None \<Rightarrow> None
               | Some lp_lon \<Rightarrow> Some (lp_lon, lp_lat))
         else
           Some (0, if 0 < eqdc_n pp then pi / 2 else - (pi / 2)))"

subsection \<open>Cassini (proj/cass.hpp)\<close>

definition cass_C1 :: real where "cass_C1 = 16666666666666666666 / 10 ^ 20"
definition cass_C2 :: real where "cass_C2 = 833333333333333333 / 10 ^ 20"
definition cass_C3 :: real where "cass_C3 = 4166666666666666666 / 10 ^ 20"
definition cass_C4 :: real where "cass_C4 = 33333333333333333333 / 10 ^ 20"
definition cass_C5 :: real where "cass_C5 = 6666666666666666666 / 10 ^ 20"

record par_cass =
  cass_m0 :: real
  cass_en :: "real list"

text \<open>
  \<open>setup_cass(par, proj_parm)\<close> fills \<open>proj_parm\<close> only when \<open>par.es\<close> is not zero; on
  the sphere the incoming block is returned as it is.
\<close>

definition setup_cass :: "pj_helpers \<Rightarrow> parameters \<Rightarrow> par_cass \<Rightarrow> error + par_cass" where
  "setup_cass H par proj_parm =
     (if par_es par \<noteq> 0 then
        (case pj_enfn H (par_es par) of
           None \<Rightarrow> Inl (proj_exception 0)
         | Some en \<Rightarrow>
             Inr (proj_parm\<lparr>cass_en := en,
                    cass_m0 := pj_mlfn H (par_phi0 par) (sin (par_phi0 par))
                                 (cos (par_phi0 par)) en\<rparr>))
      else Inr proj_parm)"

definition cass_e_fwd ::
  "pj_helpers \<Rightarrow> parameters \<Rightarrow> par_cass \<Rightarrow> real \<times> real \<Rightarrow> real \<times> real" where
  "cass_e_fwd H par pp lp =
     (let lp_lon = fst lp; lp_lat = snd lp;
          n = sin lp_lat;
          c = cos lp_lat;
          xy_y = pj_mlfn H lp_lat n c (cass_en pp);
          n = 1 / sqrt (1 - par_es par * n * n);
          tn = tan lp_lat;
          t = tn * tn;
          a1 = lp_lon * c;
          c = c * (par_es par * c / (1 - par_es par));
          a2 = a1 * a1;
          xy_x = n * a1 * (1 - a2 * t * (cass_C1 - (8 - t + 8 * c) * a2 * cass_C2));
          xy_y = xy_y - (cass_m0 pp - n * tn * a2 * (1 / 2 + (5 - t + 6 * c) * a2 * cass_C3))
      in (xy_x, xy_y))"

definition cass_e_inv ::
  "pj_helpers \<Rightarrow> parameters \<Rightarrow> par_cass \<Rightarrow> real \<times> real \<Rightarrow> real \<times> real" where
  "cass_e_inv H par pp xy =
     (let xy_x = fst xy; xy_y = snd xy;
          ph1 = pj_inv_mlfn H (cass_m0 pp + xy_y) (par_es par) (cass_en pp);
          tn = tan ph1;
          t = tn * tn;
          n = sin ph1;
          r = 1 / (1 - par_es par * n * n);
          n = sqrt r;
          r = r * ((1 - par_es par) * n);
          dd = xy_x / n;
          d2 = dd * dd;
          lp_lat = ph1 - (n * tn / r) * d2 * (1 / 2 - (1 + 3 * t) * d2 * cass_C3);
          lp_lon = dd * (1 + t * d2 * (- cass_C4 + (1 + 3 * t) * d2 * cass_C5)) / cos ph1
      in (lp_lon, lp_lat))"

definition cass_s_fwd :: "parameters \<Rightarrow> real \<times> real \<Rightarrow> real \<times> real" where
  "cass_s_fwd par lp =
     (let lp_lon = fst lp; lp_lat = snd lp;
          xy_x = arcsin (cos lp_lat * sin lp_lon);
          xy_y = atan2 (tan lp_lat) (cos lp_lon) - par_phi0 par
      in (xy_x, xy_y))"


subsection \<open>Eckert IV (proj/eck4.hpp)\<close>

definition C_x :: real where "C_x = 42223820031577120149 / 10 ^ 20"
definition C_y :: real where "C_y = 132650042817700232218 / 10 ^ 20"
definition RC_y :: real where "RC_y = 75386330736002178205 / 10 ^ 20"
definition C_p :: real where "C_p = 357079632679489661922 / 10 ^ 20"
definition RC_p :: real where "RC_p = 28004957675577868795 / 10 ^ 20"
definition EPS :: real where "EPS = 1 / 10 ^ 7"
definition NITER :: nat where "NITER = 6"

text \<open>
  The Newton loop \<open>for (i = NITER; i; --i) { ...; if (fabs(V) < EPS) break; }\<close> on the
  state \<open>(i, lp_lat)\<close>: the result is the value of \<open>i\<close> after the loop (0 exactly when
  the budget was used up without a \<open>break\<close>) and the last iterate.
\<close>

fun eck4_newton :: "nat \<Rightarrow> real \<Rightarrow> real \<Rightarrow> nat \<times> real" where
  "eck4_newton 0 p lp_lat = (0, lp_lat)"
| "eck4_newton (Suc i) p lp_lat =
     (let c = cos lp_lat;
          s = sin lp_lat;
          V = (lp_lat + s * (c + 2) - p) / (1 + c * (c + 2) - s * s);
          lp_lat = lp_lat - V
      in if \<bar>V\<bar> < EPS then (Suc i, lp_lat) else eck4_newton i p lp_lat)"

text \<open>
  The first half of \<open>fwd\<close>: the seed of the iteration and the loop. The value is the
  state \<open>(i, lp_lat)\<close> on which the final \<open>if (!i)\<close> decides.
\<close>

definition eck4_iterate :: "real \<Rightarrow> nat \<times> real" where
  "eck4_iterate lp_lat =
     (let p = C_p * sin lp_lat;
          V = lp_lat * lp_lat;
          lp_lat = lp_lat * (895168 / 10 ^ 6 + V * (218849 / 10 ^ 7 + V * (826809 / 10 ^ 8)))
      in eck4_newton NITER p lp_lat)"

definition eck4_fwd :: "real \<times> real \<Rightarrow> real \<times> real" where
  "eck4_fwd lp =
     (let lp_lon = fst lp;
          il = eck4_iterate (snd lp);
          i = fst il;
          lp_lat = snd il
      in if i = 0 then (C_x * lp_lon, if lp_lat < 0 then - C_y else C_y)
         else (C_x * lp_lon * (1 + cos lp_lat), C_y * sin lp_lat))"


subsection \<open>Quadrilateralized Spherical Cube (srs/projections/proj/qsc.hpp)\<close>

text \<open>
  \<open>detail::FORTPI<double>()\<close> is declared outside this source: a quarter of \<open>\<pi>\<close>
  (45 degrees), half of which is the 22.5 degrees of the face selection.
\<close>

definition FORTPI :: real where "FORTPI = pi / 4"

definition FACE_FRONT :: int where "FACE_FRONT = 0"
definition FACE_RIGHT :: int where "FACE_RIGHT = 1"
definition FACE_BACK :: int where "FACE_BACK = 2"
definition FACE_LEFT :: int where "FACE_LEFT = 3"
definition FACE_TOP :: int where "FACE_TOP = 4"
definition FACE_BOTTOM :: int where "FACE_BOTTOM = 5"
definition AREA_0 :: int where "AREA_0 = 0"
definition AREA_1 :: int where "AREA_1 = 1"
definition AREA_2 :: int where "AREA_2 = 2"
definition AREA_3 :: int where "AREA_3 = 3"

record par_qsc =
  qsc_face :: int
  qsc_a_squared :: real
  qsc_b :: real
  qsc_one_minus_f :: real
  qsc_one_minus_f_squared :: real

definition setup_qsc_face :: "parameters \<Rightarrow> int" where
  "setup_qsc_face par =
     (if pi / 2 - FORTPI / 2 \<le> par_phi0 par then FACE_TOP
      else if par_phi0 par \<le> - (pi / 2 - FORTPI / 2) then FACE_BOTTOM
      else if \<bar>par_lam0 par\<bar> \<le> FORTPI then FACE_FRONT
      else if \<bar>par_lam0 par\<bar> \<le> pi / 2 + FORTPI then
        (if 0 < par_lam0 par then FACE_RIGHT else FACE_LEFT)
      else FACE_BACK)"

text \<open>
  The setup: the face, and for an ellipsoid the constants of the shift between the
  ellipsoid and the sphere, in the arithmetic of \<open>double\<close> (the fields of \<open>par\<close> hold
  doubles).
\<close>

definition setup_qsc :: "parameters \<Rightarrow> par_qsc \<Rightarrow> par_qsc" where
  "setup_qsc par proj_parm =
     (let proj_parm = proj_parm\<lparr>qsc_face := setup_qsc_face par\<rparr>
      in if par_es par \<noteq> 0 then
           (let a_squared = dmul (par_a par) (par_a par);
                b = dmul (par_a par) (double_round (sqrt (dsub 1 (par_es par))));
                one_minus_f = dsub 1 (double_round (dsub (par_a par) b / par_a par))
            in proj_parm\<lparr>qsc_a_squared := a_squared, qsc_b := b,
                 qsc_one_minus_f := one_minus_f,
                 qsc_one_minus_f_squared := dmul one_minus_f one_minus_f\<rparr>)
         else proj_parm)"

definition qsc_shift_lon_origin :: "real \<Rightarrow> real \<Rightarrow> real" where
  "qsc_shift_lon_origin lon offset =
     (let slon = lon + offset
      in if slon < - pi then slon + 2 * pi
         else if pi < slon then slon - 2 * pi
         else slon)"

text \<open>
  The helper of the forward map on the equatorial faces: the angle \<open>theta\<close> in the
  area of definition, and the area.
\<close>

definition qsc_fwd_equat_face_theta :: "real \<Rightarrow> real \<Rightarrow> real \<Rightarrow> real \<times> int" where
  "qsc_fwd_equat_face_theta phi y x =
     (if phi < EPS10 then (0, AREA_0)
      else
        (let theta = atan2 y x
         in if \<bar>theta\<bar> \<le> FORTPI then (theta, AREA_0)
            else if FORTPI < theta \<and> theta \<le> pi / 2 + FORTPI then (theta - pi / 2, AREA_1)
            else if pi / 2 + FORTPI < theta \<or> theta \<le> - (pi / 2 + FORTPI) then
              (if 0 \<le> theta then theta - pi else theta + pi, AREA_2)
            else (theta + pi / 2, AREA_3)))"

text \<open>
  The forward map, first part: from the longitude and the latitude on the sphere to
  \<open>(theta, phi, area)\<close> on the face.
\<close>

definition qsc_fwd_theta_phi :: "int \<Rightarrow> real \<Rightarrow> real \<Rightarrow> real \<times> real \<times> int" where
  "qsc_fwd_theta_phi face lp_lon lat =
     (let lon = (if face = FACE_RIGHT then qsc_shift_lon_origin lp_lon (pi / 2)
                 else if face = FACE_BACK then qsc_shift_lon_origin lp_lon pi
                 else if face = FACE_LEFT then qsc_shift_lon_origin lp_lon (- (pi / 2))
                 else lp_lon);
          q = cos lat * cos lon;
          r = cos lat * sin lon;
          s = sin lat
      in if face = FACE_FRONT then
           (let phi = arccos q; ta = qsc_fwd_equat_face_theta phi s r
            in (fst ta, phi, snd ta))
         else if face = FACE_RIGHT then
           (let phi = arccos r; ta = qsc_fwd_equat_face_theta phi s (- q)
            in (fst ta, phi, snd ta))
         else if face = FACE_BACK then
           (let phi = arccos (- q); ta = qsc_fwd_equat_face_theta phi s (- r)
            in (fst ta, phi, snd ta))
         else if face = FACE_LEFT then
           (let phi = arccos (- r); ta = qsc_fwd_equat_face_theta phi s q
            in (fst ta, phi, snd ta))
         else if face = FACE_TOP then
           (let phi = pi / 2 - lat
            in if FORTPI \<le> lon \<and> lon \<le> pi / 2 + FORTPI then (lon - pi / 2, phi, AREA_0)
               else if pi / 2 + FORTPI < lon \<or> lon \<le> - (pi / 2 + FORTPI) then
                 (if 0 < lon then lon - pi else lon + pi, phi, AREA_1)
               else if - (pi / 2 + FORTPI) < lon \<and> lon \<le> - FORTPI then
                 (lon + pi / 2, phi, AREA_2)
               else (lon, phi, AREA_3))
         else
           (let phi = pi / 2 + lat
            in if FORTPI \<le> lon \<and> lon \<le> pi / 2 + FORTPI then (- lon + pi / 2, phi, AREA_0)
               else if lon < FORTPI \<and> - FORTPI \<le> lon then (- lon, phi, AREA_1)
               else if lon < - FORTPI \<and> - (pi / 2 + FORTPI) \<le> lon then
                 (- lon - pi / 2, phi, AREA_2)
               else (if 0 < lon then - lon + pi else - lon - pi, phi, AREA_3)))"

text \<open>
  The forward map. On an ellipsoid the geodetic latitude, a \<open>double\<close>, is first
  converted to the geocentric latitude, in the arithmetic of \<open>double\<close>; \<open>tan\<close> and
  \<open>atan\<close> are taken as correctly rounded.
\<close>

definition qsc_fwd :: "parameters \<Rightarrow> par_qsc \<Rightarrow> real \<times> real \<Rightarrow> real \<times> real" where
  "qsc_fwd par pp lp =
     (let lp_lon = fst lp; lp_lat = snd lp;
          lat = (if par_es par \<noteq> 0
                 then double_round (arctan (dmul (qsc_one_minus_f_squared pp)
                        (double_round (tan (double_round lp_lat)))))
                 else lp_lat);
          tpa = qsc_fwd_theta_phi (qsc_face pp) lp_lon lat;
          theta = fst tpa;
          phi = fst (snd tpa);
          area = snd (snd tpa);
          mu = arctan ((12 / pi) * (theta + arccos (sin theta * cos FORTPI) - pi / 2));
          t = sqrt ((1 - cos phi) / (cos mu * cos mu) / (1 - cos (arctan (1 / cos theta))));
          mu = (if area = AREA_1 then mu + pi / 2
                else if area = AREA_2 then mu + pi
                else if area = AREA_3 then mu + (pi / 2 + pi)
                else mu)
      in (t * cos mu, t * sin mu))"

text \<open>
  The inverse, in the order of the source. First the area of the face and the angle
  \<open>mu\<close> reduced to the area of definition.
\<close>

definition qsc_inv_area :: "real \<times> real \<Rightarrow> int \<times> real" where
  "qsc_inv_area xy =
     (let xy_x = fst xy; xy_y = snd xy;
          mu = atan2 xy_y xy_x
      in if 0 \<le> xy_x \<and> \<bar>xy_y\<bar> \<le> xy_x then (AREA_0, mu)
         else if 0 \<le> xy_y \<and> \<bar>xy_x\<bar> \<le> xy_y then (AREA_1, mu - pi / 2)
         else if xy_x < 0 \<and> \<bar>xy_y\<bar> \<le> - xy_x then
           (AREA_2, if mu < 0 then mu + pi else mu - pi)
         else (AREA_3, mu + pi / 2))"

text \<open>
  Then \<open>theta\<close> and the cosine of \<open>phi\<close> for the area of definition, the latter
  clamped:
  \<open>if (cosphi < -1.0) cosphi = -1.0; else if (cosphi > +1.0) cosphi = +1.0;\<close>
\<close>

definition qsc_inv_theta_cosphi :: "real \<times> real \<Rightarrow> real \<Rightarrow> (real \<times> real) option" where
  "qsc_inv_theta_cosphi xy mu =
     do {
       let xy_x = fst xy;
       let xy_y = snd xy;
       h \<leftarrow> fsqrt (xy_x * xy_x + xy_y * xy_y);
       let nu = arctan h;
       let t = (pi / 12) * tan mu;
       s2 \<leftarrow> fsqrt 2;
       i2 \<leftarrow> fdiv 1 s2;
       tantheta \<leftarrow> fdiv (sin t) (cos t - i2);
       let theta = arctan tantheta;
       let cosmu = cos mu;
       let tannu = tan nu;
       ic \<leftarrow> fdiv 1 (cos theta);
       let cosphi = 1 - cosmu * cosmu * tannu * tannu * (1 - cos (arctan ic));
       let cosphi = (if cosphi < - 1 then - 1 else if 1 < cosphi then 1 else cosphi);
       Some (theta, cosphi)
     }"

text \<open>
  The unit-sphere components of the equatorial faces, with their guards
  \<open>if (t >= 1.0) s = 0.0;\<close> and \<open>if (t >= 1.0) r = 0.0;\<close>, rotated into the area.
\<close>

definition qsc_inv_qrs :: "int \<Rightarrow> real \<Rightarrow> real \<Rightarrow> (real \<times> real \<times> real) option" where
  "qsc_inv_qrs area theta cosphi =
     do {
       let q = cosphi;
       let t = q * q;
       s \<leftarrow> (if 1 \<le> t then Some 0
             else do { w \<leftarrow> fsqrt (1 - t); Some (w * sin theta) });
       let t = t + s * s;
       r \<leftarrow> (if 1 \<le> t then Some 0 else fsqrt (1 - t));
       Some (if area = AREA_1 then (q, - s, r)
             else if area = AREA_2 then (q, - r, - s)
             else if area = AREA_3 then (q, s, - r)
             else (q, r, s))
     }"

text \<open>
  The spherical longitude and latitude on each face: \<open>(lp_lon, lp_lat)\<close> before the
  shift to the ellipsoid.
\<close>

definition qsc_inv_sphere :: "int \<Rightarrow> int \<Rightarrow> real \<Rightarrow> real \<Rightarrow> (real \<times> real) option" where
  "qsc_inv_sphere face area theta cosphi =
     (if face = FACE_TOP then
        do {
          phi \<leftarrow> facos cosphi;
          let lp_lat = pi / 2 - phi;
          Some (if area = AREA_0 then theta + pi / 2
                else if area = AREA_1 then (if theta < 0 then theta + pi else theta - pi)
                else if area = AREA_2 then theta - pi / 2
                else theta, lp_lat)
        }
      else if face = FACE_BOTTOM then
        do {
          phi \<leftarrow> facos cosphi;
          let lp_lat = phi - pi / 2;
          Some (if area = AREA_0 then - theta + pi / 2
                else if area = AREA_1 then - theta
                else if area = AREA_2 then - theta - pi / 2
                else (if theta < 0 then - theta - pi else - theta + pi), lp_lat)
        }
      else
        do {
          qrs \<leftarrow> qsc_inv_qrs area theta cosphi;
          let q = fst qrs;
          let r = fst (snd qrs);
          let s = snd (snd qrs);
          let qr = (if face = FACE_RIGHT then (- r, q)
                    else if face = FACE_BACK then (- q, - r)
                    else if face = FACE_LEFT then (r, - q)
                    else (q, r));
          let q = fst qr;
          let r = snd qr;
          ac \<leftarrow> facos (- s);
          let lp_lat = ac - pi / 2;
          let lp_lon = atan2 r q;
          Some (if face = FACE_RIGHT then qsc_shift_lon_origin lp_lon (- (pi / 2))
                else if face = FACE_BACK then qsc_shift_lon_origin lp_lon (- pi)
                else if face = FACE_LEFT then qsc_shift_lon_origin lp_lon (pi / 2)
                else lp_lon, lp_lat)
        })"

text \<open>
  The shift from the sphere to the ellipsoid, applied to the latitude when \<open>par.es\<close>
  is not zero, in the arithmetic of \<open>double\<close>: the latitude is the \<open>double\<close> that
  the variable \<open>lp_lat\<close> holds, every operation rounds, and \<open>tan\<close> and \<open>atan\<close> are
  taken as correctly rounded. No guard precedes
  \<open>sqrt(this->m_par.a * this->m_par.a - xa * xa)\<close>.
\<close>

definition qsc_inv_shift :: "parameters \<Rightarrow> par_qsc \<Rightarrow> real \<Rightarrow> real option" where
  "qsc_inv_shift par pp lp_lat =
     (if par_es par \<noteq> 0 then
        do {
          let lp_lat = double_round lp_lat;
          let invert_sign = (lp_lat < 0);
          let tanphi = double_round (tan lp_lat);
          w \<leftarrow> dsqrt (dadd (dmul tanphi tanphi) (qsc_one_minus_f_squared pp));
          xa \<leftarrow> ddiv (qsc_b pp) w;
          v \<leftarrow> dsqrt (dsub (dmul (par_a par) (par_a par)) (dmul xa xa));
          u \<leftarrow> ddiv v (dmul (qsc_one_minus_f pp) xa);
          let lp_lat = double_round (arctan u);
          Some (if invert_sign then - lp_lat else lp_lat)
        }
      else Some lp_lat)"

definition qsc_inv :: "parameters \<Rightarrow> par_qsc \<Rightarrow> real \<times> real \<Rightarrow> (real \<times> real) option" where
  "qsc_inv par pp xy =
     do {
       let am = qsc_inv_area xy;
       let area = fst am;
       let mu = snd am;
       tc \<leftarrow> qsc_inv_theta_cosphi xy mu;
       let theta = fst tc;
       let cosphi = snd tc;
       ll \<leftarrow> qsc_inv_sphere (qsc_face pp) area theta cosphi;
       lp_lat \<leftarrow> qsc_inv_shift par pp (snd ll);
       Some (fst ll, lp_lat)
     }"

subsection \<open>Units and sample inputs\<close>

text \<open>Degrees to radians, for the statements that the specification gives in degrees.\<close>

definition deg :: "real \<Rightarrow> real" where
  "deg d = d * pi / 180"

text \<open>
  A concrete implementation of the helpers, used to evaluate the kernels at sample
  inputs: the meridian arc of the unit sphere (arc length equal to latitude).
\<close>

definition unit_helpers :: pj_helpers where
  "unit_helpers =
     \<lparr>pj_enfn = (\<lambda>es. Some []), pj_mlfn = (\<lambda>phi s c en. phi),
      pj_inv_mlfn = (\<lambda>m es en. m), pj_msfn = (\<lambda>s c es. c)\<rparr>"

text \<open>
  An ellipsoid with \<open>a = 3\<close> and \<open>es = 0.6\<close> (the \<open>double\<close> nearest to \<open>0.6\<close>),
  with the centre of projection at longitude 0 and latitude 0.
\<close>

definition ellipsoid_3_06 :: parameters where
  "ellipsoid_3_06 =
     \<lparr>par_a = 3, par_es = 5404319552844595 / 2 ^ 53, par_phi0 = 0, par_lam0 = 0,
      par_params = (\<lambda>name. 0)\<rparr>"

text \<open>A parameter list that holds the two standard parallels, in radians.\<close>

definition eqdc_parallels :: "real \<Rightarrow> real \<Rightarrow> string \<Rightarrow> real" where
  "eqdc_parallels p1 p2 name =
     (if name = ''rlat_1'' then p1 else if name = ''rlat_2'' then p2 else 0)"

section \<open>Scale factors\<close>

lemma evaluate_A2_total: "\<exists>v. evaluate_A2 SeriesOrder eps = Some v"
  by (simp add: evaluate_A2_def evaluate_A2_t_def Let_def)

lemma evaluate_A1_defined_iff:
  "(\<exists>v. evaluate_A1 SeriesOrder eps = Some v) \<longleftrightarrow> SeriesOrder < 10"
proof -
  have "SeriesOrder div 2 \<le> 4 \<longleftrightarrow> SeriesOrder < 10" by arith
  moreover have "(\<exists>v. evaluate_A1 SeriesOrder eps = Some v) \<longleftrightarrow> SeriesOrder div 2 \<le> 4"
    by (auto simp add: evaluate_A1_def evaluate_A1_t_def Let_def split: option.splits)
  ultimately show ?thesis by simp
qed

text \<open>
  C3. The claim: for every series order, \<open>evaluate_A1\<close> and \<open>evaluate_A2\<close> assign the
  intermediate value on every branch before it is used. At order 10 the dispatch of
  \<open>evaluate_A1\<close> matches no label and the value returned is computed from the unassigned
  local, while \<open>evaluate_A2\<close> at the same order takes its \<open>default\<close> label.
\<close>

theorem evaluate_A1_order_10_unassigned:
  "evaluate_A1 10 (1 / 10) = None \<and> evaluate_A2 10 (1 / 10) \<noteq> None"
  by (simp add: evaluate_A1_def evaluate_A1_t_def evaluate_A2_def evaluate_A2_t_def Let_def)

section \<open>Clenshaw summation\<close>

lemma pre_dec_read_in_range:
  "0 < index \<Longrightarrow> index \<le> length coeffs \<Longrightarrow>
   pre_dec_read coeffs index = Some (index - 1, coeffs ! (index - 1))"
  by (simp add: pre_dec_read_def)

lemma two_cos_sin: "2 * cos y * sin (real (Suc k) * y) = sin (real (Suc (Suc k)) * y) + sin (real k * y)"
proof -
  have "sin (real (Suc (Suc k)) * y) = sin (real (Suc k) * y + y)"
    by (simp add: algebra_simps)
  moreover have "sin (real k * y) = sin (real (Suc k) * y - y)"
    by (simp add: algebra_simps)
  ultimately show ?thesis
    by (simp only: sin_add sin_diff) simp
qed

lemma clenshaw_step:
  fixes a k0 k1 c1 c2 s0 s1 s2 s3 :: real
  assumes "a * s1 = s2 + s0" and "a * s2 = s3 + s1"
  shows "(a * (a * k0 - k1 + c2) - k0 + c1) * s1 - (a * k0 - k1 + c2) * s0 =
         c1 * s1 + c2 * s2 + k0 * s3 - k1 * s2"
proof -
  have "(a * (a * k0 - k1 + c2) - k0 + c1) * s1 - (a * k0 - k1 + c2) * s0 =
        (a * k0 - k1 + c2) * (a * s1 - s0) - k0 * s1 + c1 * s1"
    by (simp add: algebra_simps)
  also have "\<dots> = (a * k0 - k1 + c2) * s2 - k0 * s1 + c1 * s1"
    using assms(1) by simp
  also have "\<dots> = k0 * (a * s2 - s1) - k1 * s2 + c2 * s2 + c1 * s1"
    by (simp add: algebra_simps)
  also have "\<dots> = k0 * s3 - k1 * s2 + c2 * s2 + c1 * s1"
    using assms(2) by simp
  finally show ?thesis by simp
qed

lemma sin_cos_loop_clenshaw:
  "2 * m + 1 \<le> length c \<Longrightarrow>
   \<exists>F. sin_cos_loop m (2 * cos y) c (2 * m + 1) k0 k1 = Some F \<and>
       F * sin y = (\<Sum>i = 1..2 * m. c ! i * sin (real i * y))
                   + k0 * sin (real (2 * m + 1) * y) - k1 * sin (real (2 * m) * y)"
proof (induction m arbitrary: k0 k1)
  case 0
  show ?case by simp
next
  case (Suc m)
  let ?a = "2 * cos y"
  let ?c2 = "c ! (2 * m + 2)" and ?c1 = "c ! (2 * m + 1)"
  let ?k1 = "?a * k0 - k1 + ?c2"
  let ?k0 = "?a * ?k1 - k0 + ?c1"
  from Suc.prems have len: "2 * m + 3 \<le> length c" by simp
  then have r1: "pre_dec_read c (2 * Suc m + 1) = Some (2 * m + 2, ?c2)"
    using pre_dec_read_in_range [of "2 * Suc m + 1" c] by simp
  from len have r2: "pre_dec_read c (2 * m + 2) = Some (2 * m + 1, ?c1)"
    using pre_dec_read_in_range [of "2 * m + 2" c] by simp
  from len have "2 * m + 1 \<le> length c" by simp
  from Suc.IH [OF this, of ?k0 ?k1] obtain F where
    F: "sin_cos_loop m ?a c (2 * m + 1) ?k0 ?k1 = Some F"
    and v: "F * sin y = (\<Sum>i = 1..2 * m. c ! i * sin (real i * y))
                   + ?k0 * sin (real (2 * m + 1) * y) - ?k1 * sin (real (2 * m) * y)"
    by blast
  have run: "sin_cos_loop (Suc m) ?a c (2 * Suc m + 1) k0 k1 = Some F"
    using r1 r2 F by (simp add: Let_def)
  have t1: "?a * sin (real (2 * m + 1) * y) = sin (real (2 * m + 2) * y) + sin (real (2 * m) * y)"
    using two_cos_sin [of y "2 * m"] by simp
  have t2: "?a * sin (real (2 * m + 2) * y) = sin (real (2 * m + 3) * y) + sin (real (2 * m + 1) * y)"
    using two_cos_sin [of y "2 * m + 1"] by (simp add: numeral_3_eq_3)
  have "?k0 * sin (real (2 * m + 1) * y) - ?k1 * sin (real (2 * m) * y) =
        ?c1 * sin (real (2 * m + 1) * y) + ?c2 * sin (real (2 * m + 2) * y)
        + k0 * sin (real (2 * m + 3) * y) - k1 * sin (real (2 * m + 2) * y)"
    by (rule clenshaw_step [OF t1 t2])
  moreover have "(\<Sum>i = 1..2 * Suc m. c ! i * sin (real i * y)) =
        (\<Sum>i = 1..2 * m. c ! i * sin (real i * y))
        + ?c1 * sin (real (2 * m + 1) * y) + ?c2 * sin (real (2 * m + 2) * y)"
    by simp
  moreover have "2 * Suc m + 1 = 2 * m + 3" "2 * Suc m = 2 * m + 2" by simp_all
  ultimately have "F * sin y = (\<Sum>i = 1..2 * Suc m. c ! i * sin (real i * y))
                   + k0 * sin (real (2 * Suc m + 1) * y) - k1 * sin (real (2 * Suc m) * y)"
    using v by (simp only:) 
  with run show ?case by blast
qed

lemma sin_cos_loop_zero:
  "2 * m + 1 \<le> n \<Longrightarrow> sin_cos_loop m ar (replicate n 0) (2 * m + 1) 0 0 = Some 0"
proof (induction m)
  case 0
  show ?case by simp
next
  case (Suc m)
  then have "sin_cos_loop m ar (replicate n 0) (2 * m + 1) 0 0 = Some 0" by simp
  with Suc.prems show ?case
    by (simp add: pre_dec_read_def Let_def)
qed

lemma sin_cos_series_run:
  assumes "length c = n + 1"
    and "(if odd n then pre_dec_read c (n + 1) else Some (n + 1, 0)) = Some (i, k0)"
    and "sin_cos_loop (n div 2) ar c i k0 0 = Some F"
    and "ar = 2 * (cosx - sinx) * (cosx + sinx)"
  shows "sin_cos_series sinx cosx c = Some (2 * sinx * cosx * F)"
proof -
  from assms(1) have "c \<noteq> []" "length c - 1 = n" by auto
  then show ?thesis
    unfolding sin_cos_series_def Let_def
    by (simp only: if_False assms(2) assms(3) assms(4) [symmetric] option.case prod.case)
qed

lemma sin_cos_series_clenshaw:
  assumes "length c = n + 1"
  shows "sin_cos_series (sin x) (cos x) c = Some (direct_sin_sum c n x)"
proof -
  let ?y = "2 * x"
  let ?m = "n div 2"
  let ?k0 = "if odd n then c ! n else 0"
  have "cos ?y = cos x * cos x - sin x * sin x"
    by (simp add: cos_double power2_eq_square)
  then have ar: "2 * (cos x - sin x) * (cos x + sin x) = 2 * cos ?y"
    by (simp add: algebra_simps)
  have first: "(if odd n then pre_dec_read c (n + 1) else Some (n + 1, 0)) = Some (2 * ?m + 1, ?k0)"
  proof (cases "odd n")
    case True
    then have "2 * ?m + 1 = n" by presburger
    with True assms show ?thesis by (simp add: pre_dec_read_def)
  next
    case False
    then have "2 * ?m = n" by presburger
    with False show ?thesis by simp
  qed
  have "2 * ?m + 1 \<le> length c" using assms by simp
  from sin_cos_loop_clenshaw [OF this, of ?y ?k0 0] obtain F where
    F: "sin_cos_loop ?m (2 * cos ?y) c (2 * ?m + 1) ?k0 0 = Some F"
    and v: "F * sin ?y = (\<Sum>i = 1..2 * ?m. c ! i * sin (real i * ?y))
                   + ?k0 * sin (real (2 * ?m + 1) * ?y)"
    by auto
  have sum: "(\<Sum>i = 1..2 * ?m. c ! i * sin (real i * ?y)) + ?k0 * sin (real (2 * ?m + 1) * ?y)
             = (\<Sum>i = 1..n. c ! i * sin (real i * ?y))"
  proof (cases "odd n")
    case True
    then have e: "n = Suc (2 * ?m)" by presburger
    have "(\<Sum>i = 1..Suc (2 * ?m). c ! i * sin (real i * ?y)) =
          (\<Sum>i = 1..2 * ?m. c ! i * sin (real i * ?y)) + c ! Suc (2 * ?m) * sin (real (Suc (2 * ?m)) * ?y)"
      by simp
    with True e show ?thesis by simp
  next
    case False
    then have "2 * ?m = n" by presburger
    with False show ?thesis by simp
  qed
  have "2 * sin x * cos x * F = F * sin ?y" by (simp add: sin_double)
  also have "\<dots> = (\<Sum>i = 1..n. c ! i * sin (real i * ?y))" using v sum by simp
  also have "\<dots> = direct_sin_sum c n x"
    by (simp add: direct_sin_sum_def mult.assoc mult.left_commute)
  finally have res: "2 * sin x * cos x * F = direct_sin_sum c n x" .
  show ?thesis
    using sin_cos_series_run [OF assms first F ar [symmetric]] res by simp
qed

text \<open>
  C4. For a coefficient array \<open>c\<close> of static size \<open>n + 1\<close> and \<open>sinx = sin x\<close>,
  \<open>cosx = cos x\<close>, \<open>sin_cos_series\<close> returns the direct sum of \<open>c[i] * sin(2 i x)\<close>
  for \<open>i\<close> from 1 to \<open>n\<close> (every read is inside the array); for an all-zero array it
  returns 0 for any \<open>sinx\<close> and \<open>cosx\<close>; for \<open>n = 1\<close> and \<open>c[1] = k\<close> it returns
  \<open>k * sin (2 x)\<close>.
\<close>

theorem sin_cos_series_is_direct_sum:
  "(length c = n + 1 \<longrightarrow>
      sin_cos_series (sin x) (cos x) c = Some (direct_sin_sum c n x)) \<and>
   sin_cos_series sinx cosx (replicate (n + 1) 0) = Some 0 \<and>
   sin_cos_series (sin x) (cos x) [c0, k] = Some (k * sin (2 * x))"
proof (intro conjI impI)
  assume "length c = n + 1"
  then show "sin_cos_series (sin x) (cos x) c = Some (direct_sin_sum c n x)"
    by (rule sin_cos_series_clenshaw)
next
  have "sin_cos_loop (n div 2) (2 * (cosx - sinx) * (cosx + sinx)) (replicate (n + 1) 0)
          (2 * (n div 2) + 1) 0 0 = Some 0"
    by (rule sin_cos_loop_zero) simp
  moreover have "(if odd n then pre_dec_read (replicate (n + 1) 0) (n + 1) else Some (n + 1, 0))
      = Some (2 * (n div 2) + 1, 0)"
  proof (cases "odd n")
    case True
    then have "2 * (n div 2) + 1 = n" by presburger
    moreover have "replicate (n + 1) (0::real) ! n = 0" by (simp only: nth_replicate less_add_one)
    ultimately show ?thesis using True by (simp add: pre_dec_read_def del: replicate_Suc)
  next
    case False
    then have "2 * (n div 2) = n" by presburger
    with False show ?thesis by simp
  qed
  ultimately show "sin_cos_series sinx cosx (replicate (n + 1) 0) = Some 0"
    using sin_cos_series_run [of "replicate (n + 1) 0" n "2 * (n div 2) + 1" 0
        "2 * (cosx - sinx) * (cosx + sinx)" 0 cosx sinx]
    by (simp del: replicate_Suc)
next
  show "sin_cos_series (sin x) (cos x) [c0, k] = Some (k * sin (2 * x))"
    by (simp add: sin_cos_series_def Let_def pre_dec_read_def sin_double)
qed

theorem sin_cos_series_is_direct_sum_witness:
  "sin_cos_series (sin 1) (cos 1) [7, 1, 2, 3, 4]
     = Some (1 * sin 2 + 2 * sin 4 + 3 * sin 6 + 4 * sin 8) \<and>
   sin_cos_series (sin 1) (cos 1) [7, 1, 2, 3]
     = Some (1 * sin 2 + 2 * sin 4 + 3 * sin 6)"
proof -
  have "direct_sin_sum [7, 1, 2, 3, 4] 4 1 = 1 * sin 2 + 2 * sin 4 + 3 * sin 6 + 4 * sin 8"
    by (simp add: direct_sin_sum_def numeral_eq_Suc)
  moreover have "direct_sin_sum [7, 1, 2, 3] 3 1 = 1 * sin 2 + 2 * sin 4 + 3 * sin 6"
    by (simp add: direct_sin_sum_def numeral_eq_Suc)
  ultimately show ?thesis
    using sin_cos_series_is_direct_sum [of "[7, 1, 2, 3, 4]" 4 1]
          sin_cos_series_is_direct_sum [of "[7, 1, 2, 3]" 3 1]
    by simp
qed

section \<open>Eckert IV: the Newton iteration at the pole\<close>

subsection \<open>Bounds on \<open>\<pi>\<close> from Machin's formula\<close>

lemma arctan_alternating_bounds:
  fixes x :: real
  assumes x0: "0 \<le> x" and x1: "x < 1"
  shows "(\<Sum>k<2 * n. (- 1) ^ k * (1 / real (k * 2 + 1) * x ^ (k * 2 + 1))) \<le> arctan x"
    and "arctan x \<le> (\<Sum>k<2 * n + 1. (- 1) ^ k * (1 / real (k * 2 + 1) * x ^ (k * 2 + 1)))"
proof -
  define a where "a k = 1 / real (k * 2 + 1) * x ^ (k * 2 + 1)" for k
  have nonneg: "0 \<le> a k" for k
    using x0 by (simp add: a_def)
  have below: "a k \<le> x ^ k" for k
  proof -
    have "a k \<le> 1 * x ^ (k * 2 + 1)"
      unfolding a_def by (rule mult_right_mono) (use x0 in simp_all)
    also have "x ^ (k * 2 + 1) \<le> x ^ k"
      by (rule power_decreasing) (use x0 x1 in simp_all)
    finally show ?thesis by simp
  qed
  have zero: "a \<longlonglongrightarrow> 0"
  proof (rule tendsto_sandwich)
    show "\<forall>\<^sub>F k in sequentially. 0 \<le> a k" by (simp add: nonneg)
    show "\<forall>\<^sub>F k in sequentially. a k \<le> x ^ k" by (simp add: below)
    show "(\<lambda>k. 0::real) \<longlonglongrightarrow> 0" by simp
    show "(\<lambda>k. x ^ k) \<longlonglongrightarrow> 0" using x0 x1 by (rule LIMSEQ_realpow_zero)
  qed
  have mono: "a (Suc k) \<le> a k" for k
  proof -
    have "x ^ (Suc k * 2 + 1) \<le> x ^ (k * 2 + 1)"
      by (rule power_decreasing) (use x0 x1 in simp_all)
    moreover have "1 / real (Suc k * 2 + 1) \<le> 1 / real (k * 2 + 1)"
      by (simp add: field_simps)
    ultimately show ?thesis
      unfolding a_def using x0 by (intro mult_mono) simp_all
  qed
  have series: "arctan x = (\<Sum>k. (- 1) ^ k * a k)"
    unfolding a_def using arctan_series [of x] x0 x1 by simp
  show "(\<Sum>k<2 * n. (- 1) ^ k * (1 / real (k * 2 + 1) * x ^ (k * 2 + 1))) \<le> arctan x"
    using summable_Leibniz'(2) [of a, OF zero nonneg mono, of n]
    unfolding series a_def .
  show "arctan x \<le> (\<Sum>k<2 * n + 1. (- 1) ^ k * (1 / real (k * 2 + 1) * x ^ (k * 2 + 1)))"
    using summable_Leibniz'(4) [of a, OF zero nonneg mono, of n]
    unfolding series a_def .
qed

lemma pi_lower: "3141592653588 / 10 ^ 12 \<le> pi"
proof -
  have "pi = 16 * arctan (1 / 5) - 4 * arctan (1 / 239)"
    using machin by simp
  moreover note arctan_alternating_bounds(1) [of "1 / 5" 4]
    arctan_alternating_bounds(2) [of "1 / 239" 1]
  ultimately show ?thesis
    by (simp add: eval_nat_numeral)
qed

lemma pi_upper: "pi \<le> 31415926535899 / 10 ^ 13"
proof -
  have "pi = 16 * arctan (1 / 5) - 4 * arctan (1 / 239)"
    using machin by simp
  moreover note arctan_alternating_bounds(2) [of "1 / 5" 4]
    arctan_alternating_bounds(1) [of "1 / 239" 2]
  ultimately show ?thesis
    by (simp add: eval_nat_numeral)
qed

subsection \<open>Taylor bounds for sine and cosine\<close>

lemma cos_lower_2: "1 - x\<^sup>2 / 2 \<le> cos x" if "0 < x" for x :: real
proof -
  from Maclaurin_cos_expansion2 [of x 2] that obtain t where
    "cos x = (\<Sum>m<2. cos_coeff m * x ^ m) + (cos (t + 1 / 2 * real 2 * pi) / fact 2) * x ^ 2"
    by auto
  then have "cos x = 1 - cos t * x\<^sup>2 / 2"
    by (simp add: eval_nat_numeral cos_coeff_Suc sin_coeff_Suc)
  moreover have "cos t * x\<^sup>2 \<le> 1 * x\<^sup>2"
    by (rule mult_right_mono) simp_all
  ultimately show ?thesis by simp
qed

lemma cos_upper_4: "cos x \<le> 1 - x\<^sup>2 / 2 + x ^ 4 / 24" if "0 < x" for x :: real
proof -
  from Maclaurin_cos_expansion2 [of x 4] that obtain t where
    "cos x = (\<Sum>m<4. cos_coeff m * x ^ m) + (cos (t + 1 / 2 * real 4 * pi) / fact 4) * x ^ 4"
    by auto
  moreover have "cos (t + 1 / 2 * real 4 * pi) = cos t"
    using cos_periodic [of t] by (simp add: algebra_simps)
  ultimately have "cos x = 1 - x\<^sup>2 / 2 + cos t * x ^ 4 / 24"
    by (simp add: eval_nat_numeral cos_coeff_Suc sin_coeff_Suc)
  moreover have "cos t * x ^ 4 \<le> 1 * x ^ 4"
    by (rule mult_right_mono) simp_all
  ultimately show ?thesis by simp
qed

lemma sin_lower_3: "x - x ^ 3 / 6 \<le> sin x" if "0 < x" for x :: real
proof -
  from Maclaurin_sin_expansion3 [of 3 x] that obtain t where
    "sin x = (\<Sum>m<3. sin_coeff m * x ^ m) + (sin (t + 1 / 2 * real 3 * pi) / fact 3) * x ^ 3"
    by auto
  moreover have "sin (t + 1 / 2 * real 3 * pi) = - cos t"
  proof -
    have "t + 1 / 2 * real 3 * pi = (t + pi / 2) + pi" by simp
    then show ?thesis by (simp only: sin_periodic_pi sin_add) simp
  qed
  ultimately have "sin x = x - cos t * x ^ 3 / 6"
    by (simp add: eval_nat_numeral cos_coeff_Suc sin_coeff_Suc)
  moreover have "cos t * x ^ 3 \<le> 1 * x ^ 3"
    by (rule mult_right_mono) (use that in simp_all)
  ultimately show ?thesis by simp
qed

subsection \<open>One Newton correction close to the pole\<close>

text \<open>
  With the iterate written as \<open>\<pi>/2 - d\<close> and a right-hand side \<open>p\<close> within
  \<open>5e-12\<close> of \<open>\<pi>/2 + 2\<close>, the equation has an (almost) double root at \<open>d = 0\<close>:
  the correction is about \<open>-d/2\<close>, and the denominator is not zero. \<open>C_p\<close> itself
  agrees with \<open>\<pi>/2 + 2\<close> to twelve digits.
\<close>

lemma C_p_near_pi:
  shows "- (1 / 1000000000000) \<le> pi / 2 + 2 - C_p"
    and "pi / 2 + 2 - C_p \<le> 1 / 1000000000000"
  using pi_lower pi_upper by (simp_all add: C_p_def)

lemma newton_correction_near_pole:
  fixes d p :: real
  assumes lo: "1 / 10 ^ 5 \<le> d" and hi: "d \<le> 1 / 10 ^ 3"
    and p: "\<bar>pi / 2 + 2 - p\<bar> \<le> 5 / 10 ^ 12"
  defines "th \<equiv> pi / 2 - d"
  defines "V \<equiv> (th + sin th * (cos th + 2) - p) / (1 + cos th * (cos th + 2) - sin th * sin th)"
  shows "- (55 / 100) * d \<le> V" and "V \<le> - (45 / 100) * d"
proof -
  define s where "s = sin d"
  define c where "c = cos d"
  define e where "e = pi / 2 + 2 - p"
  define d2 where "d2 = d * d"
  define d3 where "d3 = d2 * d"
  define d4 where "d4 = d2 * d2"
  define N where "N = th + sin th * (cos th + 2) - p"
  define D where "D = 1 + cos th * (cos th + 2) - sin th * sin th"
  have d0: "0 < d" using lo by (rule less_le_trans [rotated]) simp
  have d2_lo: "1 / 10000000000 \<le> d2"
    unfolding d2_def using mult_mono [OF lo lo] d0 by simp
  have d2_hi: "d2 \<le> 1 / 1000000"
    unfolding d2_def using mult_mono [OF hi hi] d0 by simp
  have d2_0: "0 \<le> d2" by (simp add: d2_def)
  have d3_hi: "d3 \<le> d2 / 1000"
    unfolding d3_def using mult_left_mono [OF hi d2_0] by simp
  have d3_0: "0 \<le> d3" unfolding d3_def using d2_0 d0 by simp
  have d4_hi: "d4 \<le> d2 / 1000000"
    unfolding d4_def using mult_left_mono [OF d2_hi d2_0] by simp
  have d4_0: "0 \<le> d4" unfolding d4_def using d2_0 by simp
  have e_abs: "\<bar>e\<bar> \<le> 5 / 10 ^ 12"
    unfolding e_def by (rule p)
  have sth: "sin th = c" and cth: "cos th = s"
    by (simp_all add: th_def s_def c_def sin_diff cos_diff)
  have s_hi: "s \<le> d" unfolding s_def using d0 by (intro sin_x_le_x) simp
  have s_lo: "d - d3 / 6 \<le> s"
    unfolding s_def d3_def d2_def using sin_lower_3 [OF d0]
    by (simp add: power3_eq_cube mult.assoc)
  have s0: "0 < s"
  proof -
    have "d3 / 6 < d" using d3_hi d2_hi d0 lo by simp
    with s_lo show ?thesis by simp
  qed
  have c_lo: "1 - d2 / 2 \<le> c"
    unfolding c_def d2_def using cos_lower_2 [OF d0] by (simp add: power2_eq_square)
  have c_hi: "c \<le> 1 - d2 / 2 + d4 / 24"
    unfolding c_def d4_def d2_def using cos_upper_4 [OF d0]
    by (simp add: power2_eq_square power4_eq_xxxx mult.assoc)
  have sc: "c * s = sin (2 * d) / 2"
    by (simp add: sin_double s_def c_def)
  have sc_hi: "c * s \<le> d"
    unfolding sc using sin_x_le_x [of "2 * d"] d0 by simp
  have sc_lo: "d - 2 * d3 / 3 \<le> c * s"
  proof -
    have "0 < 2 * d" using d0 by simp
    from sin_lower_3 [OF this] have "2 * d - 4 * d3 / 3 \<le> sin (2 * d)"
      by (simp add: power3_eq_cube d3_def d2_def mult.assoc)
    then show ?thesis unfolding sc by simp
  qed
  have cc: "c * c = 1 - s * s"
    using sin_cos_squared_add [of d] by (simp add: s_def c_def power2_eq_square)
  have N_eq: "N = e - 2 - d + c * s + 2 * c"
    unfolding N_def sth cth by (simp add: e_def th_def algebra_simps)
  have D_eq: "D = 2 * (s * s) + 2 * s"
    unfolding D_def sth cth by (simp add: cc algebra_simps)
  have ss_0: "0 \<le> s * s" by simp
  have ss_hi: "s * s \<le> d2"
    unfolding d2_def using s_hi s0 d0 by (intro mult_mono) simp_all
  have D0: "0 < D" unfolding D_eq using s0 ss_0 by linarith
  have ds_hi: "d * s \<le> d2"
    unfolding d2_def using s_hi d0 by (intro mult_left_mono) simp_all
  have ds_lo: "d2 - d4 / 6 \<le> d * s"
  proof -
    have "d * (d - d3 / 6) \<le> d * s"
      using s_lo d0 by (intro mult_left_mono) simp_all
    moreover have "d * (d - d3 / 6) = d2 - d4 / 6"
      by (simp add: d2_def d3_def d4_def algebra_simps)
    ultimately show ?thesis by simp
  qed
  have dss_0: "0 \<le> d * (s * s)" using d0 by simp
  have dss_hi: "d * (s * s) \<le> d3"
    unfolding d3_def using mult_left_mono [OF ss_hi, of d] d0 by (simp add: mult.commute)
  have dD: "d * D = 2 * (d * (s * s)) + 2 * (d * s)"
    by (simp add: D_eq algebra_simps)
  have e_lo: "- (5 / 1000000000000) \<le> e" and e_hi: "e \<le> 5 / 1000000000000"
    using e_abs by (simp_all add: abs_le_iff)
  have up: "N \<le> - (45 / 100) * (d * D)"
    using N_eq dD sc_hi c_hi dss_hi ds_hi e_hi d2_lo d3_hi d4_hi d3_0 d4_0 by linarith
  have dn: "- (55 / 100) * (d * D) \<le> N"
    using N_eq dD sc_lo c_lo dss_0 ds_lo e_lo d2_lo d3_hi d4_hi d3_0 d4_0 by linarith
  have V: "V = N / D" unfolding V_def N_def D_def ..
  show "- (55 / 100) * d \<le> V"
    unfolding V using dn D0 by (simp add: pos_le_divide_eq mult.assoc)
  show "V \<le> - (45 / 100) * d"
    unfolding V using up D0 by (simp add: pos_divide_le_eq mult.assoc)
qed

subsection \<open>The budget is used up\<close>

lemma eck4_newton_continue:
  assumes "V = (l + sin l * (cos l + 2) - p) / (1 + cos l * (cos l + 2) - sin l * sin l)"
    and "\<not> \<bar>V\<bar> < EPS"
  shows "eck4_newton (Suc i) p l = eck4_newton i p (l - V)"
  using assms(2) unfolding assms(1) by (simp add: Let_def)

lemma eck4_newton_near_pole:
  assumes "45 / 10 ^ 7 \<le> (45 / 100) ^ n * d" and "d \<le> 1 / 10 ^ 3"
    and p: "\<bar>pi / 2 + 2 - p\<bar> \<le> 5 / 10 ^ 12"
  shows "\<exists>d'. 0 < d' \<and> d' \<le> d \<and> eck4_newton n p (pi / 2 - d) = (0, pi / 2 - d')"
  using assms(1,2)
proof (induction n arbitrary: d)
  case 0
  then have "0 < d" by simp
  then show ?case by auto
next
  case (Suc n)
  define V where "V = (pi / 2 - d + sin (pi / 2 - d) * (cos (pi / 2 - d) + 2) - p) /
      (1 + cos (pi / 2 - d) * (cos (pi / 2 - d) + 2) - sin (pi / 2 - d) * sin (pi / 2 - d))"
  define q :: real where "q = (45 / 100) ^ n"
  have q0: "0 \<le> q" and q1: "q \<le> 1"
    unfolding q_def by (simp_all add: power_le_one)
  define r where "r = q * d"
  have "(45 / 100) ^ Suc n * d = (45 / 100) * r"
    by (simp add: q_def r_def)
  with Suc.prems(1) have "45 / 10 ^ 7 \<le> (45 / 100) * r" by simp
  then have "1 / 10 ^ 5 \<le> r" by simp
  then have qd: "1 / 10 ^ 5 \<le> q * d" by (simp only: r_def)
  have d0: "0 \<le> d"
  proof (rule ccontr)
    assume "\<not> 0 \<le> d"
    then have "q * d \<le> 0" using q0 by (simp add: mult_nonneg_nonpos)
    with qd show False by simp
  qed
  have "q * d \<le> 1 * d" using q1 d0 by (rule mult_right_mono)
  with qd have lo: "1 / 10 ^ 5 \<le> d" by simp
  note b = newton_correction_near_pole [OF lo Suc.prems(2) p, folded V_def]
  have nb: "\<not> \<bar>V\<bar> < EPS"
    using b(2) lo by (simp add: EPS_def abs_if)
  have step: "eck4_newton (Suc n) p (pi / 2 - d) = eck4_newton n p (pi / 2 - (d + V))"
  proof -
    have "pi / 2 - d - V = pi / 2 - (d + V)" by simp
    with eck4_newton_continue [OF V_def nb, of n] show ?thesis by simp
  qed
  have "q * ((45 / 100) * d) \<le> q * (d + V)"
    using b(1) q0 by (intro mult_left_mono) simp_all
  moreover have "(45 / 100) ^ Suc n * d = q * ((45 / 100) * d)"
    by (simp add: q_def)
  with Suc.prems(1) have "45 / 10 ^ 7 \<le> q * ((45 / 100) * d)"
    by (simp only:)
  ultimately have 1: "45 / 10 ^ 7 \<le> (45 / 100) ^ n * (d + V)"
    unfolding q_def by (rule order_trans [rotated])
  have 2: "d + V \<le> 1 / 10 ^ 3" using b(2) Suc.prems(2) lo by simp
  from Suc.IH [OF 1 2] obtain d' where "0 < d'" "d' \<le> d + V"
    "eck4_newton n p (pi / 2 - (d + V)) = (0, pi / 2 - d')" by blast
  moreover have "d + V \<le> d" using b(2) lo by simp
  ultimately show ?case using step by auto
qed

lemma eck4_seed_near_pole:
  fixes h :: real
  assumes hl: "15707 / 10000 \<le> h" and hu: "h \<le> 15708 / 10000"
  defines "V \<equiv> h * h"
  defines "l \<equiv> h * (895168 / 10 ^ 6 + V * (218849 / 10 ^ 7 + V * (826809 / 10 ^ 8)))"
  shows "6 / 10 ^ 4 \<le> h - l" and "h - l \<le> 95 / 10 ^ 5"
proof -
  define W where "W = V * V"
  define F where "F = 895168 / 1000000 + V * (218849 / 10000000 + V * (826809 / 100000000))"
  have h0: "0 \<le> h" using hl by simp
  have Vl: "(15707 / 10000) * (15707 / 10000) \<le> V"
    unfolding V_def by (rule mult_mono [OF hl hl]) (use h0 in simp_all)
  have Vu: "V \<le> (15708 / 10000) * (15708 / 10000)"
    unfolding V_def by (rule mult_mono [OF hu hu]) (use h0 in simp_all)
  have V0: "0 \<le> V" by (simp add: V_def)
  have Wl: "(246709849 / 100000000) * (246709849 / 100000000) \<le> W"
    unfolding W_def using Vl V0 by (intro mult_mono) simp_all
  have Wu: "W \<le> (246741264 / 100000000) * (246741264 / 100000000)"
    unfolding W_def using Vu V0 by (intro mult_mono) simp_all
  have F: "F = 895168 / 1000000 + (218849 / 10000000) * V + (826809 / 100000000) * W"
    by (simp add: F_def W_def algebra_simps)
  have Fl: "9994 / 10000 \<le> F" using F Vl Wl by simp
  have Fu: "F \<le> 9996 / 10000" using F Vu Wu by simp
  have l: "h - l = h * (1 - F)" by (simp add: l_def F_def algebra_simps)
  have "(15707 / 10000) * (4 / 10000) \<le> h * (1 - F)"
    using hl Fu h0 by (intro mult_mono) simp_all
  then show "6 / 10 ^ 4 \<le> h - l" unfolding l by simp
  have "h * (1 - F) \<le> (15708 / 10000) * (6 / 10000)"
    using hu Fl Fu h0 by (intro mult_mono) simp_all
  then show "h - l \<le> 95 / 10 ^ 5" unfolding l by simp
qed

lemma eck4_iterate_near_pole:
  fixes e :: real
  assumes e0: "0 \<le> e" and e1: "e \<le> 1 / 10 ^ 6"
  shows "\<exists>d'. 0 < d' \<and> d' \<le> 1 / 10 ^ 3 \<and> eck4_iterate (pi / 2 - e) = (0, pi / 2 - d')"
proof -
  define h where "h = pi / 2 - e"
  define l :: real where
    "l = h * (895168 / 10 ^ 6 + (h * h) * (218849 / 10 ^ 7 + (h * h) * (826809 / 10 ^ 8)))"
  define d where "d = pi / 2 - l"
  define p where "p = C_p * sin h"
  have hl: "15707 / 10000 \<le> h" using pi_lower e1 by (simp add: h_def)
  have hu: "h \<le> 15708 / 10000" using pi_upper e0 by (simp add: h_def)
  have b: "6 / 10 ^ 4 \<le> h - l" "h - l \<le> 95 / 10 ^ 5"
    unfolding l_def by (rule eck4_seed_near_pole [OF hl hu])+
  have d_eq: "d = e + (h - l)" by (simp add: d_def h_def)
  have dl: "6 / 10 ^ 4 \<le> d" using b(1) e0 unfolding d_eq by simp
  have du: "d \<le> 1 / 10 ^ 3" using b(2) e1 unfolding d_eq by simp
  have sh: "sin h = cos e" by (simp add: h_def sin_diff)
  have ce: "1 - cos e \<le> e * e / 2" and ce0: "0 \<le> 1 - cos e"
  proof -
    show "0 \<le> 1 - cos e" by simp
    show "1 - cos e \<le> e * e / 2"
    proof (cases "e = 0")
      case True
      then show ?thesis by simp
    next
      case False
      with e0 have "0 < e" by simp
      from cos_lower_2 [OF this] show ?thesis by (simp add: power2_eq_square)
    qed
  qed
  have "e * e \<le> (1 / 10 ^ 6) * (1 / 10 ^ 6)"
    using e0 e1 by (intro mult_mono) simp_all
  with ce have ce': "1 - cos e \<le> 1 / 2000000000000" by simp
  have "C_p * (1 - cos e) \<le> C_p * (1 / 2000000000000)"
    using ce' by (intro mult_left_mono) (simp_all add: C_p_def)
  then have up: "C_p * (1 - cos e) \<le> 2 / 1000000000000" by (simp add: C_p_def)
  have lo: "0 \<le> C_p * (1 - cos e)" using ce0 by (simp add: C_p_def)
  define q where "q = pi / 2 + 2 - C_p"
  define r where "r = C_p * (1 - cos e)"
  have "pi / 2 + 2 - p = q + r"
    by (simp add: p_def sh q_def r_def algebra_simps)
  moreover have "- (1 / 1000000000000) \<le> q" "q \<le> 1 / 1000000000000"
    unfolding q_def by (rule C_p_near_pi)+
  moreover have "0 \<le> r" "r \<le> 2 / 1000000000000"
    unfolding r_def by (rule lo, rule up)
  ultimately have "\<bar>pi / 2 + 2 - p\<bar> \<le> 5 / 1000000000000"
    by (simp only: abs_le_iff) linarith
  then have p: "\<bar>pi / 2 + 2 - p\<bar> \<le> 5 / 10 ^ 12" by simp
  have "45 / 10 ^ 7 \<le> (45 / 100) ^ 6 * (6 / 10 ^ 4 :: real)"
    by (simp add: power_divide)
  also have "\<dots> \<le> (45 / 100) ^ 6 * d"
    using dl by (intro mult_left_mono) simp_all
  finally have "45 / 10 ^ 7 \<le> (45 / 100) ^ 6 * d" .
  from eck4_newton_near_pole [OF this du p] obtain d' where
    d': "0 < d'" "d' \<le> d" "eck4_newton 6 p (pi / 2 - d) = (0, pi / 2 - d')"
    by blast
  have "pi / 2 - d = l" by (simp add: d_def)
  with d'(3) have "eck4_newton 6 p l = (0, pi / 2 - d')" by (simp only:)
  moreover have "eck4_iterate (pi / 2 - e) = eck4_newton 6 p l"
    unfolding eck4_iterate_def Let_def NITER_def l_def p_def h_def ..
  ultimately have "eck4_iterate (pi / 2 - e) = (0, pi / 2 - d')" by (simp only:)
  with d'(1,2) du show ?thesis by auto
qed

lemma eck4_iterate_pole:
  "\<exists>d'. 0 < d' \<and> d' \<le> 1 / 10 ^ 3 \<and> eck4_iterate (pi / 2) = (0, pi / 2 - d')"
  using eck4_iterate_near_pole [of 0] by simp

lemma eck4_newton_odd:
  "eck4_newton n (- p) (- l) = (fst (eck4_newton n p l), - snd (eck4_newton n p l))"
proof (induction n arbitrary: l)
  case 0
  show ?case by simp
next
  case (Suc n)
  define V where "V = (l + sin l * (cos l + 2) - p) / (1 + cos l * (cos l + 2) - sin l * sin l)"
  have m: "(- l + sin (- l) * (cos (- l) + 2) - (- p)) /
        (1 + cos (- l) * (cos (- l) + 2) - sin (- l) * sin (- l)) = - V"
  proof -
    have "- l + sin (- l) * (cos (- l) + 2) - (- p) = - (l + sin l * (cos l + 2) - p)"
      by simp
    moreover have "1 + cos (- l) * (cos (- l) + 2) - sin (- l) * sin (- l) =
        1 + cos l * (cos l + 2) - sin l * sin l"
      by simp
    ultimately show ?thesis
      unfolding V_def by (simp only: minus_divide_left)
  qed
  show ?case
  proof (cases "\<bar>V\<bar> < EPS")
    case True
    then show ?thesis
      unfolding eck4_newton.simps Let_def m V_def [symmetric] by simp
  next
    case False
    have "- l - - V = - (l - V)" by simp
    with False Suc.IH [of "l - V"] show ?thesis
      unfolding eck4_newton.simps Let_def m V_def [symmetric] by simp
  qed
qed

lemma eck4_iterate_odd:
  "eck4_iterate (- lat) = (fst (eck4_iterate lat), - snd (eck4_iterate lat))"
  unfolding eck4_iterate_def Let_def
  using eck4_newton_odd [of NITER "C_p * sin lat"] by simp

text \<open>
  C2. At latitude \<open>\<pi>/2\<close> the six iterations end with \<open>i = 0\<close>: no correction is
  smaller than \<open>1e-7\<close> in absolute value (the loop leaves with \<open>i \<noteq> 0\<close> exactly when
  one is), and the result is \<open>x = C_x * lon\<close>, \<open>y = C_y\<close>; at \<open>-\<pi>/2\<close> it is
  \<open>y = -C_y\<close>. In general, whenever the loop ends with \<open>i = 0\<close>, the result is
  \<open>x = C_x * lon\<close> and \<open>y = -C_y\<close> or \<open>C_y\<close> as the last iterate is negative or not.
\<close>

theorem eck4_fwd_pole_fallback:
  "fst (eck4_iterate (pi / 2)) = 0 \<and>
   eck4_fwd (lon, pi / 2) = (C_x * lon, C_y) \<and>
   eck4_fwd (lon, - (pi / 2)) = (C_x * lon, - C_y) \<and>
   (fst (eck4_iterate lat) = 0 \<longrightarrow>
      eck4_fwd (lon, lat) = (C_x * lon, if snd (eck4_iterate lat) < 0 then - C_y else C_y))"
proof -
  from eck4_iterate_pole obtain d' where
    d': "0 < d'" "d' \<le> 1 / 10 ^ 3" "eck4_iterate (pi / 2) = (0, pi / 2 - d')"
    by blast
  have p: "2 \<le> pi" by (rule pi_ge_two)
  have pos: "0 < pi / 2 - d'" using d'(2) p by simp
  have south: "eck4_iterate (- (pi / 2)) = (0, - (pi / 2 - d'))"
    using eck4_iterate_odd [of "pi / 2"] d'(3) by simp
  have 1: "fst (eck4_iterate (pi / 2)) = 0" using d'(3) by simp
  have 2: "eck4_fwd (lon, pi / 2) = (C_x * lon, C_y)"
    using d'(3) pos by (simp add: eck4_fwd_def Let_def)
  have 3: "eck4_fwd (lon, - (pi / 2)) = (C_x * lon, - C_y)"
    using south pos by (simp add: eck4_fwd_def Let_def)
  have 4: "fst (eck4_iterate lat) = 0 \<longrightarrow>
      eck4_fwd (lon, lat) = (C_x * lon, if snd (eck4_iterate lat) < 0 then - C_y else C_y)"
    by (simp add: eck4_fwd_def Let_def)
  from 1 2 3 4 show ?thesis by blast
qed

theorem eck4_fwd_pole_fallback_witness:
  "fst (eck4_iterate (pi / 2)) = 0 \<and>
   snd (eck4_iterate (pi / 2)) \<ge> 0 \<and>
   eck4_fwd (1, pi / 2) = (C_x, C_y)"
proof -
  note t = eck4_fwd_pole_fallback [of 1 "pi / 2"]
  from t have 1: "fst (eck4_iterate (pi / 2)) = 0" by blast
  from t have 2: "eck4_fwd (1, pi / 2) = (C_x * 1, C_y)" by blast
  from t 1 have "eck4_fwd (1, pi / 2) =
      (C_x * 1, if snd (eck4_iterate (pi / 2)) < 0 then - C_y else C_y)" by blast
  with 2 have "(if snd (eck4_iterate (pi / 2)) < 0 then - C_y else C_y) = C_y" by simp
  moreover have "- C_y \<noteq> C_y" by (simp add: C_y_def)
  ultimately have "\<not> snd (eck4_iterate (pi / 2)) < 0" by (auto split: if_splits)
  with 1 2 show ?thesis by simp
qed

section \<open>Equidistant Conic: setup\<close>

text \<open>
  C5. When the standard parallels satisfy \<open>|phi1 + phi2| < 1e-10\<close>, the setup fails
  with the exception of code \<open>-21\<close>, whatever the helpers do: the test precedes the
  call of \<open>pj_enfn\<close> and every derived constant, and no constant block is returned.
\<close>

theorem setup_eqdc_degenerate:
  "\<bar>par_params par ''rlat_1'' + par_params par ''rlat_2''\<bar> < EPS10
   \<Longrightarrow> setup_eqdc H par = Inl (proj_exception (- 21))"
  by (simp add: setup_eqdc_def Let_def)

theorem setup_eqdc_degenerate_witness:
  "setup_eqdc unit_helpers
     \<lparr>par_a = 1, par_es = 0, par_phi0 = 0, par_lam0 = 0,
      par_params = eqdc_parallels (1 / 2) (- (1 / 2))\<rparr> = Inl (proj_exception (- 21))"
  using setup_eqdc_degenerate [of "\<lparr>par_a = 1, par_es = 0, par_phi0 = 0, par_lam0 = 0,
      par_params = eqdc_parallels (1 / 2) (- (1 / 2))\<rparr>" unit_helpers]
  by (simp add: eqdc_parallels_def EPS10_def)

text \<open>
  C6. When \<open>|phi1 - phi2| < 1e-10\<close> and the setup succeeds, the cone constant is
  \<open>sin phi1\<close>, on the sphere path and on the ellipsoid path, and \<open>c\<close> is computed
  from that \<open>n\<close>: the secant quotient is not applied.
\<close>

theorem setup_eqdc_tangent:
  "\<bar>par_params par ''rlat_1'' - par_params par ''rlat_2''\<bar> < EPS10
   \<Longrightarrow> setup_eqdc H par = Inr pp
   \<Longrightarrow> eqdc_n pp = sin (par_params par ''rlat_1'') \<and>
       eqdc_ellips pp = (0 < par_es par) \<and>
       (if 0 < par_es par
        then (\<exists>en. pj_enfn H (par_es par) = Some en \<and>
              eqdc_c pp = pj_mlfn H (par_params par ''rlat_1'') (sin (par_params par ''rlat_1''))
                            (cos (par_params par ''rlat_1'')) en +
                          pj_msfn H (sin (par_params par ''rlat_1''))
                            (cos (par_params par ''rlat_1'')) (par_es par) /
                          sin (par_params par ''rlat_1''))
        else eqdc_c pp = par_params par ''rlat_1'' +
                         cos (par_params par ''rlat_1'') / sin (par_params par ''rlat_1''))"
  by (auto simp add: setup_eqdc_def Let_def split: if_splits option.splits)

theorem setup_eqdc_tangent_witness:
  "(\<exists>pp. setup_eqdc unit_helpers
       \<lparr>par_a = 1, par_es = 0, par_phi0 = 0, par_lam0 = 0,
        par_params = eqdc_parallels 1 1\<rparr> = Inr pp \<and> eqdc_n pp = sin 1 \<and> \<not> eqdc_ellips pp) \<and>
   (\<exists>pp. setup_eqdc unit_helpers
       \<lparr>par_a = 1, par_es = 1 / 100, par_phi0 = 0, par_lam0 = 0,
        par_params = eqdc_parallels 1 1\<rparr> = Inr pp \<and> eqdc_n pp = sin 1 \<and> eqdc_ellips pp)"
proof -
  let ?P0 = "\<lparr>par_a = 1, par_es = 0, par_phi0 = 0, par_lam0 = 0, par_params = eqdc_parallels 1 1\<rparr>"
  let ?P1 = "\<lparr>par_a = 1, par_es = 1 / 100, par_phi0 = 0, par_lam0 = 0, par_params = eqdc_parallels 1 1\<rparr>"
  have d: "\<bar>par_params ?P0 ''rlat_1'' - par_params ?P0 ''rlat_2''\<bar> < EPS10"
       "\<bar>par_params ?P1 ''rlat_1'' - par_params ?P1 ''rlat_2''\<bar> < EPS10"
    by (simp_all add: eqdc_parallels_def EPS10_def)
  obtain pp0 where p0: "setup_eqdc unit_helpers ?P0 = Inr pp0"
    by (simp add: setup_eqdc_def Let_def eqdc_parallels_def EPS10_def unit_helpers_def)
  obtain pp1 where p1: "setup_eqdc unit_helpers ?P1 = Inr pp1"
    by (simp add: setup_eqdc_def Let_def eqdc_parallels_def EPS10_def unit_helpers_def)
  from setup_eqdc_tangent [OF d(1) p0] setup_eqdc_tangent [OF d(2) p1] p0 p1
  show ?thesis by (simp add: eqdc_parallels_def)
qed

section \<open>Equidistant Conic: inverse\<close>

lemma hypot_3_4: "hypot 3 (- 4) = 5"
proof -
  have "sqrt (5\<^sup>2) = (5::real)" by simp
  then show ?thesis by (simp add: hypot_def)
qed

text \<open>
  C7. In the inverse, with \<open>rho = hypot(x, rho0 - y)\<close>: when \<open>rho\<close> is not zero and
  \<open>n < 0\<close>, the latitude is recovered from \<open>-rho\<close> and the longitude from
  \<open>atan2(-x, -(rho0 - y)) / n\<close>; when \<open>n > 0\<close> nothing is negated; when \<open>rho\<close> is
  exactly zero the result is longitude 0 and latitude \<open>\<pi>/2\<close> for \<open>n > 0\<close>,
  \<open>-\<pi>/2\<close> otherwise, and it is a value even for \<open>n = 0\<close>: the quotient by \<open>n\<close>
  is taken only on the branch \<open>rho \<noteq> 0\<close>, where \<open>n = 0\<close> gives no real number.
\<close>

theorem eqdc_inv_sign_and_apex:
  "(hypot x (eqdc_rho0 pp - y) \<noteq> 0 \<and> eqdc_n pp < 0 \<longrightarrow>
      eqdc_inv H par pp (x, y) =
        Some (atan2 (- x) (- (eqdc_rho0 pp - y)) / eqdc_n pp,
              if eqdc_ellips pp
              then pj_inv_mlfn H (eqdc_c pp - (- hypot x (eqdc_rho0 pp - y))) (par_es par) (eqdc_en pp)
              else eqdc_c pp - (- hypot x (eqdc_rho0 pp - y)))) \<and>
   (hypot x (eqdc_rho0 pp - y) \<noteq> 0 \<and> 0 < eqdc_n pp \<longrightarrow>
      eqdc_inv H par pp (x, y) =
        Some (atan2 x (eqdc_rho0 pp - y) / eqdc_n pp,
              if eqdc_ellips pp
              then pj_inv_mlfn H (eqdc_c pp - hypot x (eqdc_rho0 pp - y)) (par_es par) (eqdc_en pp)
              else eqdc_c pp - hypot x (eqdc_rho0 pp - y))) \<and>
   (hypot x (eqdc_rho0 pp - y) \<noteq> 0 \<and> eqdc_n pp = 0 \<longrightarrow> eqdc_inv H par pp (x, y) = None) \<and>
   (hypot x (eqdc_rho0 pp - y) = 0 \<longrightarrow>
      eqdc_inv H par pp (x, y) = Some (0, if 0 < eqdc_n pp then pi / 2 else - (pi / 2)))"
  by (simp add: eqdc_inv_def Let_def fdiv_def)

theorem eqdc_inv_sign_and_apex_witness:
  "eqdc_inv unit_helpers \<lparr>par_a = 1, par_es = 0, par_phi0 = 0, par_lam0 = 0, par_params = (\<lambda>s. 0)\<rparr>
     \<lparr>eqdc_phi1 = 0, eqdc_phi2 = 0, eqdc_n = - (1 / 2), eqdc_rho0 = 1, eqdc_c = 1,
      eqdc_en = [], eqdc_ellips = False\<rparr> (3, 5) = Some (atan2 (- 3) 4 / (- (1 / 2)), 6) \<and>
   eqdc_inv unit_helpers \<lparr>par_a = 1, par_es = 0, par_phi0 = 0, par_lam0 = 0, par_params = (\<lambda>s. 0)\<rparr>
     \<lparr>eqdc_phi1 = 0, eqdc_phi2 = 0, eqdc_n = 1 / 2, eqdc_rho0 = 1, eqdc_c = 1,
      eqdc_en = [], eqdc_ellips = False\<rparr> (3, 5) = Some (atan2 3 (- 4) / (1 / 2), - 4) \<and>
   eqdc_inv unit_helpers \<lparr>par_a = 1, par_es = 0, par_phi0 = 0, par_lam0 = 0, par_params = (\<lambda>s. 0)\<rparr>
     \<lparr>eqdc_phi1 = 0, eqdc_phi2 = 0, eqdc_n = 0, eqdc_rho0 = 1, eqdc_c = 1,
      eqdc_en = [], eqdc_ellips = False\<rparr> (3, 5) = None \<and>
   eqdc_inv unit_helpers \<lparr>par_a = 1, par_es = 0, par_phi0 = 0, par_lam0 = 0, par_params = (\<lambda>s. 0)\<rparr>
     \<lparr>eqdc_phi1 = 0, eqdc_phi2 = 0, eqdc_n = - (1 / 2), eqdc_rho0 = 1, eqdc_c = 1,
      eqdc_en = [], eqdc_ellips = False\<rparr> (0, 1) = Some (0, - (pi / 2)) \<and>
   eqdc_inv unit_helpers \<lparr>par_a = 1, par_es = 0, par_phi0 = 0, par_lam0 = 0, par_params = (\<lambda>s. 0)\<rparr>
     \<lparr>eqdc_phi1 = 0, eqdc_phi2 = 0, eqdc_n = 0, eqdc_rho0 = 1, eqdc_c = 1,
      eqdc_en = [], eqdc_ellips = False\<rparr> (0, 1) = Some (0, - (pi / 2))"
proof -
  let ?par = "\<lparr>par_a = 1, par_es = 0, par_phi0 = 0, par_lam0 = 0, par_params = (\<lambda>s. 0)\<rparr>"
  let ?pp = "\<lambda>n. \<lparr>eqdc_phi1 = 0, eqdc_phi2 = 0, eqdc_n = n, eqdc_rho0 = 1, eqdc_c = 1,
      eqdc_en = [], eqdc_ellips = False\<rparr>"
  have h0: "hypot 0 0 = 0" by (simp add: hypot_def)
  from eqdc_inv_sign_and_apex [of 3 "?pp (- (1 / 2))" 5 unit_helpers ?par]
       eqdc_inv_sign_and_apex [of 3 "?pp (1 / 2)" 5 unit_helpers ?par]
       eqdc_inv_sign_and_apex [of 3 "?pp 0" 5 unit_helpers ?par]
       eqdc_inv_sign_and_apex [of 0 "?pp (- (1 / 2))" 1 unit_helpers ?par]
       eqdc_inv_sign_and_apex [of 0 "?pp 0" 1 unit_helpers ?par]
  show ?thesis by (simp add: hypot_3_4 h0)
qed

section \<open>QSC: face selection\<close>

text \<open>
  C8. The face chosen by the setup: a reference latitude within 22.5 degrees of +90
  gives the top face, within 22.5 degrees of -90 the bottom face; for the latitudes
  in between, \<open>|lam0| \<le> 45\<close> degrees gives front, \<open>45 < |lam0| \<le> 135\<close> gives right
  for positive and left for negative \<open>lam0\<close>, and any other \<open>lam0\<close> gives back; with
  the instances at the poles and on the equator.
\<close>

theorem setup_qsc_face_selection:
  "(\<bar>par_phi0 par - deg 90\<bar> \<le> deg (45 / 2) \<longrightarrow> qsc_face (setup_qsc par pp) = FACE_TOP) \<and>
   (\<bar>par_phi0 par + deg 90\<bar> \<le> deg (45 / 2) \<longrightarrow> qsc_face (setup_qsc par pp) = FACE_BOTTOM) \<and>
   (\<bar>par_phi0 par\<bar> < deg 90 - deg (45 / 2) \<longrightarrow>
      qsc_face (setup_qsc par pp) =
        (if \<bar>par_lam0 par\<bar> \<le> deg 45 then FACE_FRONT
         else if \<bar>par_lam0 par\<bar> \<le> deg 135 then
           (if 0 < par_lam0 par then FACE_RIGHT else FACE_LEFT)
         else FACE_BACK)) \<and>
   (par_phi0 par = deg 90 \<longrightarrow> qsc_face (setup_qsc par pp) = FACE_TOP) \<and>
   (par_phi0 par = deg (- 90) \<longrightarrow> qsc_face (setup_qsc par pp) = FACE_BOTTOM) \<and>
   (par_phi0 par = 0 \<and> par_lam0 par = 0 \<longrightarrow> qsc_face (setup_qsc par pp) = FACE_FRONT) \<and>
   (par_phi0 par = 0 \<and> par_lam0 par = deg 90 \<longrightarrow> qsc_face (setup_qsc par pp) = FACE_RIGHT) \<and>
   (par_phi0 par = 0 \<and> par_lam0 par = deg (- 90) \<longrightarrow> qsc_face (setup_qsc par pp) = FACE_LEFT) \<and>
   (par_phi0 par = 0 \<and> \<bar>par_lam0 par\<bar> = deg 180 \<longrightarrow> qsc_face (setup_qsc par pp) = FACE_BACK)"
proof -
  have f: "qsc_face (setup_qsc par pp) = setup_qsc_face par"
    by (simp add: setup_qsc_def Let_def)
  have p: "2 \<le> pi" by (rule pi_ge_two)
  define phi where "phi = par_phi0 par"
  define lam where "lam = par_lam0 par"
  have g: "setup_qsc_face par =
     (if 3 * pi / 8 \<le> phi then FACE_TOP
      else if phi \<le> - (3 * pi / 8) then FACE_BOTTOM
      else if \<bar>lam\<bar> \<le> pi / 4 then FACE_FRONT
      else if \<bar>lam\<bar> \<le> 3 * pi / 4 then (if 0 < lam then FACE_RIGHT else FACE_LEFT)
      else FACE_BACK)"
    unfolding setup_qsc_face_def FORTPI_def phi_def lam_def
    by (simp add: field_simps)
  have d: "deg 90 = pi / 2" "deg (- 90) = - (pi / 2)" "deg (45 / 2) = pi / 8"
    "deg 45 = pi / 4" "deg 135 = 3 * pi / 4" "deg 180 = pi"
    by (simp_all add: deg_def)
  have top: "3 * pi / 8 \<le> phi \<Longrightarrow> setup_qsc_face par = FACE_TOP"
    by (simp add: g)
  have bottom: "phi \<le> - (3 * pi / 8) \<Longrightarrow> setup_qsc_face par = FACE_BOTTOM"
    using p by (auto simp add: g)
  have mid: "\<bar>phi\<bar> < 3 * pi / 8 \<Longrightarrow> setup_qsc_face par =
      (if \<bar>lam\<bar> \<le> pi / 4 then FACE_FRONT
       else if \<bar>lam\<bar> \<le> 3 * pi / 4 then (if 0 < lam then FACE_RIGHT else FACE_LEFT)
       else FACE_BACK)"
    using p by (auto simp add: g)
  have c1: "\<bar>phi - pi / 2\<bar> \<le> pi / 8 \<longrightarrow> setup_qsc_face par = FACE_TOP"
    by (intro impI top) linarith
  have c2: "\<bar>phi + pi / 2\<bar> \<le> pi / 8 \<longrightarrow> setup_qsc_face par = FACE_BOTTOM"
    by (intro impI bottom) linarith
  have c3: "\<bar>phi\<bar> < pi / 2 - pi / 8 \<longrightarrow> setup_qsc_face par =
      (if \<bar>lam\<bar> \<le> pi / 4 then FACE_FRONT
       else if \<bar>lam\<bar> \<le> 3 * pi / 4 then (if 0 < lam then FACE_RIGHT else FACE_LEFT)
       else FACE_BACK)"
    by (intro impI mid) linarith
  have c4: "phi = pi / 2 \<longrightarrow> setup_qsc_face par = FACE_TOP"
    by (intro impI top) (use p in linarith)
  have c5: "phi = - (pi / 2) \<longrightarrow> setup_qsc_face par = FACE_BOTTOM"
    by (intro impI bottom) (use p in linarith)
  have z: "phi = 0 \<Longrightarrow> \<bar>phi\<bar> < 3 * pi / 8" using p by simp
  have c6: "phi = 0 \<and> lam = 0 \<longrightarrow> setup_qsc_face par = FACE_FRONT"
    using mid [OF z] p by simp
  have c7: "phi = 0 \<and> lam = pi / 2 \<longrightarrow> setup_qsc_face par = FACE_RIGHT"
    using mid [OF z] p by simp
  have c8: "phi = 0 \<and> lam = - (pi / 2) \<longrightarrow> setup_qsc_face par = FACE_LEFT"
    using mid [OF z] p by simp
  have c9: "phi = 0 \<and> \<bar>lam\<bar> = pi \<longrightarrow> setup_qsc_face par = FACE_BACK"
    using mid [OF z] p by simp
  show ?thesis
    unfolding f d phi_def [symmetric] lam_def [symmetric]
    using c1 c2 c3 c4 c5 c6 c7 c8 c9 by blast
qed

theorem setup_qsc_face_selection_witness:
  "qsc_face (setup_qsc \<lparr>par_a = 1, par_es = 0, par_phi0 = deg 90, par_lam0 = 0, par_params = (\<lambda>s. 0)\<rparr>
      \<lparr>qsc_face = 0, qsc_a_squared = 0, qsc_b = 0, qsc_one_minus_f = 0, qsc_one_minus_f_squared = 0\<rparr>) = FACE_TOP \<and>
   qsc_face (setup_qsc \<lparr>par_a = 1, par_es = 0, par_phi0 = deg (- 90), par_lam0 = 0, par_params = (\<lambda>s. 0)\<rparr>
      \<lparr>qsc_face = 0, qsc_a_squared = 0, qsc_b = 0, qsc_one_minus_f = 0, qsc_one_minus_f_squared = 0\<rparr>) = FACE_BOTTOM \<and>
   qsc_face (setup_qsc \<lparr>par_a = 1, par_es = 0, par_phi0 = 0, par_lam0 = 0, par_params = (\<lambda>s. 0)\<rparr>
      \<lparr>qsc_face = 0, qsc_a_squared = 0, qsc_b = 0, qsc_one_minus_f = 0, qsc_one_minus_f_squared = 0\<rparr>) = FACE_FRONT \<and>
   qsc_face (setup_qsc \<lparr>par_a = 1, par_es = 0, par_phi0 = 0, par_lam0 = deg 90, par_params = (\<lambda>s. 0)\<rparr>
      \<lparr>qsc_face = 0, qsc_a_squared = 0, qsc_b = 0, qsc_one_minus_f = 0, qsc_one_minus_f_squared = 0\<rparr>) = FACE_RIGHT \<and>
   qsc_face (setup_qsc \<lparr>par_a = 1, par_es = 0, par_phi0 = 0, par_lam0 = deg (- 90), par_params = (\<lambda>s. 0)\<rparr>
      \<lparr>qsc_face = 0, qsc_a_squared = 0, qsc_b = 0, qsc_one_minus_f = 0, qsc_one_minus_f_squared = 0\<rparr>) = FACE_LEFT \<and>
   qsc_face (setup_qsc \<lparr>par_a = 1, par_es = 0, par_phi0 = 0, par_lam0 = deg 180, par_params = (\<lambda>s. 0)\<rparr>
      \<lparr>qsc_face = 0, qsc_a_squared = 0, qsc_b = 0, qsc_one_minus_f = 0, qsc_one_minus_f_squared = 0\<rparr>) = FACE_BACK"
proof -
  let ?par = "\<lambda>phi lam. \<lparr>par_a = 1, par_es = 0, par_phi0 = phi, par_lam0 = lam, par_params = (\<lambda>s. 0)\<rparr>"
  let ?pp = "\<lparr>qsc_face = 0, qsc_a_squared = 0, qsc_b = 0, qsc_one_minus_f = 0, qsc_one_minus_f_squared = 0\<rparr>"
  have a: "\<bar>deg 180\<bar> = deg 180" by (simp add: deg_def)
  from setup_qsc_face_selection [of "?par (deg 90) 0" ?pp]
       setup_qsc_face_selection [of "?par (deg (- 90)) 0" ?pp]
       setup_qsc_face_selection [of "?par 0 0" ?pp]
       setup_qsc_face_selection [of "?par 0 (deg 90)" ?pp]
       setup_qsc_face_selection [of "?par 0 (deg (- 90))" ?pp]
       setup_qsc_face_selection [of "?par 0 (deg 180)" ?pp] a
  show ?thesis by simp
qed

section \<open>Forward map at the reference point\<close>

lemma atan2_pos_one: "atan2 y 1 = arctan y"
  by (simp add: atan2_def)

text \<open>
  C9. The forward map at relative longitude 0 and latitude \<open>phi0\<close> is \<open>(0, 0)\<close>: for
  Cassini on the sphere (for a reference latitude strictly between the poles, where
  \<open>tan\<close> is defined), for Cassini on the ellipsoid after a successful setup, and for
  the Equidistant Conic after a successful setup, on the sphere and the ellipsoid path.
\<close>

theorem forward_reference_point:
  "(- (pi / 2) < par_phi0 par \<and> par_phi0 par < pi / 2 \<longrightarrow>
      cass_s_fwd par (0, par_phi0 par) = (0, 0)) \<and>
   (par_es par \<noteq> 0 \<and> setup_cass H par pc0 = Inr pc \<longrightarrow>
      cass_e_fwd H par pc (0, par_phi0 par) = (0, 0)) \<and>
   (setup_eqdc H par = Inr pe \<longrightarrow> eqdc_fwd H pe (0, par_phi0 par) = (0, 0))"
proof (intro conjI impI)
  assume "- (pi / 2) < par_phi0 par \<and> par_phi0 par < pi / 2"
  then have "arctan (tan (par_phi0 par)) = par_phi0 par"
    by (simp add: arctan_tan)
  then show "cass_s_fwd par (0, par_phi0 par) = (0, 0)"
    by (simp add: cass_s_fwd_def Let_def atan2_pos_one)
next
  assume "par_es par \<noteq> 0 \<and> setup_cass H par pc0 = Inr pc"
  then obtain en where "pj_enfn H (par_es par) = Some en"
    and "pc = pc0\<lparr>cass_en := en,
           cass_m0 := pj_mlfn H (par_phi0 par) (sin (par_phi0 par)) (cos (par_phi0 par)) en\<rparr>"
    by (auto simp add: setup_cass_def split: option.splits)
  then show "cass_e_fwd H par pc (0, par_phi0 par) = (0, 0)"
    by (simp add: cass_e_fwd_def Let_def)
next
  assume "setup_eqdc H par = Inr pe"
  then show "eqdc_fwd H pe (0, par_phi0 par) = (0, 0)"
    by (auto simp add: setup_eqdc_def eqdc_fwd_def Let_def split: if_splits option.splits)
qed

theorem forward_reference_point_witness:
  "cass_s_fwd \<lparr>par_a = 1, par_es = 0, par_phi0 = 1 / 2, par_lam0 = 0,
      par_params = eqdc_parallels 1 (1 / 2)\<rparr> (0, 1 / 2) = (0, 0) \<and>
   (\<exists>pc. setup_cass unit_helpers \<lparr>par_a = 1, par_es = 1 / 100, par_phi0 = 1 / 2, par_lam0 = 0,
      par_params = eqdc_parallels 1 (1 / 2)\<rparr> \<lparr>cass_m0 = 0, cass_en = []\<rparr> = Inr pc \<and>
      cass_e_fwd unit_helpers \<lparr>par_a = 1, par_es = 1 / 100, par_phi0 = 1 / 2, par_lam0 = 0,
        par_params = eqdc_parallels 1 (1 / 2)\<rparr> pc (0, 1 / 2) = (0, 0)) \<and>
   (\<exists>pe. setup_eqdc unit_helpers \<lparr>par_a = 1, par_es = 0, par_phi0 = 1 / 2, par_lam0 = 0,
      par_params = eqdc_parallels 1 (1 / 2)\<rparr> = Inr pe \<and>
      eqdc_fwd unit_helpers pe (0, 1 / 2) = (0, 0)) \<and>
   (\<exists>pe. setup_eqdc unit_helpers \<lparr>par_a = 1, par_es = 1 / 100, par_phi0 = 1 / 2, par_lam0 = 0,
      par_params = eqdc_parallels 1 (1 / 2)\<rparr> = Inr pe \<and>
      eqdc_fwd unit_helpers pe (0, 1 / 2) = (0, 0))"
proof -
  let ?P0 = "\<lparr>par_a = 1, par_es = 0, par_phi0 = 1 / 2, par_lam0 = 0,
      par_params = eqdc_parallels 1 (1 / 2)\<rparr>"
  let ?P1 = "\<lparr>par_a = 1, par_es = 1 / 100, par_phi0 = 1 / 2, par_lam0 = 0,
      par_params = eqdc_parallels 1 (1 / 2)\<rparr>"
  have r: "- (pi / 2) < par_phi0 ?P0 \<and> par_phi0 ?P0 < pi / 2"
    using pi_ge_two by simp
  obtain pc where c: "setup_cass unit_helpers ?P1 \<lparr>cass_m0 = 0, cass_en = []\<rparr> = Inr pc"
    by (simp add: setup_cass_def unit_helpers_def)
  obtain pe0 where e0: "setup_eqdc unit_helpers ?P0 = Inr pe0"
    by (simp add: setup_eqdc_def Let_def eqdc_parallels_def EPS10_def unit_helpers_def)
  obtain pe1 where e1: "setup_eqdc unit_helpers ?P1 = Inr pe1"
    by (simp add: setup_eqdc_def Let_def eqdc_parallels_def EPS10_def unit_helpers_def)
  from forward_reference_point [of ?P0 unit_helpers "\<lparr>cass_m0 = 0, cass_en = []\<rparr>" pc pe0]
       forward_reference_point [of ?P1 unit_helpers "\<lparr>cass_m0 = 0, cass_en = []\<rparr>" pc pe1]
       r c e0 e1
  show ?thesis by simp
qed

section \<open>QSC: the spherical stage of the inverse is defined everywhere\<close>

subsection \<open>The reduced angle lies in the area of definition\<close>

lemma arctan_le_quarter: "v \<le> 1 \<Longrightarrow> arctan v \<le> pi / 4"
  using arctan_le_iff [of v 1] by (simp add: arctan_one)

lemma arctan_ge_quarter: "1 \<le> v \<Longrightarrow> pi / 4 \<le> arctan v"
  using arctan_le_iff [of 1 v] by (simp add: arctan_one)

lemma arctan_ge_minus_quarter: "- 1 \<le> v \<Longrightarrow> - (pi / 4) \<le> arctan v"
  using arctan_le_iff [of "- 1" v] by (simp add: arctan_one arctan_minus)

lemma arctan_le_minus_quarter: "v \<le> - 1 \<Longrightarrow> arctan v \<le> - (pi / 4)"
  using arctan_le_iff [of v "- 1"] by (simp add: arctan_one arctan_minus)

lemma atan2_area_0:
  assumes "0 \<le> x" "\<bar>y\<bar> \<le> x"
  shows "\<bar>atan2 y x\<bar> \<le> pi / 4"
proof (cases "x = 0")
  case True
  with assms have "y = 0" by simp
  with True show ?thesis by (simp add: atan2_def)
next
  case False
  with assms have x: "0 < x" by simp
  with assms have "- 1 \<le> y / x" "y / x \<le> 1"
    by (simp_all add: field_simps abs_le_iff)
  then have "- (pi / 4) \<le> arctan (y / x)" "arctan (y / x) \<le> pi / 4"
    using arctan_ge_minus_quarter [of "y / x"] arctan_le_quarter [of "y / x"] by blast+
  with x show ?thesis by (simp add: atan2_def abs_le_iff)
qed

lemma atan2_area_1:
  assumes "0 < y" "\<bar>x\<bar> \<le> y"
  shows "\<bar>atan2 y x - pi / 2\<bar> \<le> pi / 4"
proof -
  consider "0 < x" | "x = 0" | "x < 0" by linarith
  then show ?thesis
  proof cases
    case 1
    with assms have "1 \<le> y / x" by (simp add: field_simps)
    then have "pi / 4 \<le> arctan (y / x)" by (rule arctan_ge_quarter)
    moreover have "arctan (y / x) < pi / 2" by (rule arctan_ubound)
    ultimately show ?thesis using 1 by (simp add: atan2_def abs_le_iff)
  next
    case 2
    with assms show ?thesis by (simp add: atan2_def)
  next
    case 3
    with assms have "y / x \<le> - 1" by (simp add: field_simps)
    then have "arctan (y / x) \<le> - (pi / 4)" by (rule arctan_le_minus_quarter)
    moreover have "- (pi / 2) < arctan (y / x)" by (rule arctan_lbound)
    ultimately show ?thesis using 3 assms by (simp add: atan2_def abs_le_iff)
  qed
qed

lemma atan2_area_2:
  assumes "x < 0" "\<bar>y\<bar> \<le> - x"
  shows "\<bar>if atan2 y x < 0 then atan2 y x + pi else atan2 y x - pi\<bar> \<le> pi / 4"
proof -
  from assms have "- 1 \<le> y / x" "y / x \<le> 1"
    by (simp_all add: field_simps abs_le_iff)
  then have b: "- (pi / 4) \<le> arctan (y / x)" "arctan (y / x) \<le> pi / 4"
    using arctan_ge_minus_quarter [of "y / x"] arctan_le_quarter [of "y / x"] by blast+
  have p: "2 \<le> pi" by (rule pi_ge_two)
  show ?thesis
  proof (cases "0 \<le> y")
    case True
    with assms have a: "atan2 y x = arctan (y / x) + pi" by (simp add: atan2_def)
    with b p have "\<not> atan2 y x < 0" by linarith
    moreover from True assms have "y / x \<le> 0" by (simp add: field_simps)
    then have "arctan (y / x) \<le> 0" using arctan_le_iff [of "y / x" 0] by simp
    ultimately show ?thesis using a b by (simp add: abs_le_iff)
  next
    case False
    with assms have a: "atan2 y x = arctan (y / x) - pi" by (simp add: atan2_def)
    with b p have "atan2 y x < 0" by linarith
    moreover from False assms have "0 \<le> y / x" by (simp add: field_simps)
    then have "0 \<le> arctan (y / x)" using arctan_le_iff [of 0 "y / x"] by simp
    ultimately show ?thesis using a b by (simp add: abs_le_iff)
  qed
qed

lemma atan2_area_3:
  assumes "y < 0" "\<bar>x\<bar> < - y"
  shows "\<bar>atan2 y x + pi / 2\<bar> \<le> pi / 4"
proof -
  consider "0 < x" | "x = 0" | "x < 0" by linarith
  then show ?thesis
  proof cases
    case 1
    with assms have "y / x \<le> - 1" by (simp add: field_simps)
    then have "arctan (y / x) \<le> - (pi / 4)" by (rule arctan_le_minus_quarter)
    moreover have "- (pi / 2) < arctan (y / x)" by (rule arctan_lbound)
    ultimately show ?thesis using 1 by (simp add: atan2_def abs_le_iff)
  next
    case 2
    with assms show ?thesis by (simp add: atan2_def)
  next
    case 3
    with assms have "1 \<le> y / x" by (simp add: field_simps)
    then have "pi / 4 \<le> arctan (y / x)" by (rule arctan_ge_quarter)
    moreover have "arctan (y / x) < pi / 2" by (rule arctan_ubound)
    ultimately show ?thesis using 3 assms by (simp add: atan2_def abs_le_iff)
  qed
qed

lemma qsc_inv_area_mu: "\<bar>snd (qsc_inv_area xy)\<bar> \<le> pi / 4"
proof -
  obtain x y where xy: "xy = (x, y)" by (cases xy)
  consider (a0) "0 \<le> x \<and> \<bar>y\<bar> \<le> x"
    | (a1) "\<not> (0 \<le> x \<and> \<bar>y\<bar> \<le> x)" "0 \<le> y \<and> \<bar>x\<bar> \<le> y"
    | (a2) "\<not> (0 \<le> x \<and> \<bar>y\<bar> \<le> x)" "\<not> (0 \<le> y \<and> \<bar>x\<bar> \<le> y)" "x < 0 \<and> \<bar>y\<bar> \<le> - x"
    | (a3) "\<not> (0 \<le> x \<and> \<bar>y\<bar> \<le> x)" "\<not> (0 \<le> y \<and> \<bar>x\<bar> \<le> y)" "\<not> (x < 0 \<and> \<bar>y\<bar> \<le> - x)"
    by blast
  then show ?thesis
  proof cases
    case a0
    then have "qsc_inv_area xy = (AREA_0, atan2 y x)"
      by (simp add: qsc_inv_area_def xy Let_def)
    with a0 show ?thesis using atan2_area_0 [of x y] by simp
  next
    case a1
    then have "0 < y" by (cases "y = 0") auto
    from a1 have "qsc_inv_area xy = (AREA_1, atan2 y x - pi / 2)"
      unfolding qsc_inv_area_def xy Let_def fst_conv snd_conv by (simp only: if_False if_True simp_thms)
    with a1 \<open>0 < y\<close> show ?thesis using atan2_area_1 [of y x] by simp
  next
    case a2
    then have "qsc_inv_area xy =
        (AREA_2, if atan2 y x < 0 then atan2 y x + pi else atan2 y x - pi)"
      unfolding qsc_inv_area_def xy Let_def fst_conv snd_conv by (simp only: if_False if_True simp_thms)
    with a2 show ?thesis using atan2_area_2 [of x y] by simp
  next
    case a3
    then have "y < 0 \<and> \<bar>x\<bar> < - y" by (auto simp add: abs_if split: if_splits)
    moreover from a3 have "qsc_inv_area xy = (AREA_3, atan2 y x + pi / 2)"
      unfolding qsc_inv_area_def xy Let_def fst_conv snd_conv by (simp only: if_False if_True simp_thms)
    ultimately show ?thesis using atan2_area_3 [of y x] by simp
  qed
qed

subsection \<open>Every partial operation of the inverse is inside its domain\<close>

lemma tan_abs_le_one:
  assumes "\<bar>mu\<bar> \<le> pi / 4"
  shows "\<bar>tan mu\<bar> \<le> 1"
proof -
  have p: "0 < pi" by simp
  from assms have lo: "- (pi / 4) \<le> mu" and hi: "mu \<le> pi / 4" by (simp_all add: abs_le_iff)
  have "tan mu \<le> tan (pi / 4)"
    by (rule tan_mono_le) (use lo hi p in linarith)+
  moreover have "tan (- (pi / 4)) \<le> tan mu"
    by (rule tan_mono_le) (use lo hi p in linarith)+
  ultimately show ?thesis by (simp add: tan_45 abs_le_iff)
qed

lemma inv_sqrt_2: "1 / sqrt 2 = sqrt 2 / 2"
  by (simp add: real_div_sqrt field_simps)

lemma cos_gt_inv_sqrt_2:
  assumes "\<bar>t\<bar> \<le> pi / 12"
  shows "1 / sqrt 2 < cos t"
proof -
  have p: "0 < pi" by simp
  have "cos (pi / 4) < cos \<bar>t\<bar>"
    by (rule cos_monotone_0_pi) (use assms p in linarith)+
  then show ?thesis by (simp add: cos_45 inv_sqrt_2)
qed

lemma qsc_inv_theta_cosphi_defined:
  assumes "\<bar>mu\<bar> \<le> pi / 4"
  shows "\<exists>theta cosphi. qsc_inv_theta_cosphi xy mu = Some (theta, cosphi) \<and>
           - 1 \<le> cosphi \<and> cosphi \<le> 1"
proof -
  let ?t = "(pi / 12) * tan mu"
  have "\<bar>?t\<bar> = (pi / 12) * \<bar>tan mu\<bar>" by (simp add: abs_mult)
  also have "\<dots> \<le> (pi / 12) * 1"
    by (rule mult_left_mono) (use tan_abs_le_one [OF assms] in simp_all)
  finally have "\<bar>?t\<bar> \<le> pi / 12" by simp
  then have c: "cos ?t - 1 / sqrt 2 \<noteq> 0"
    using cos_gt_inv_sqrt_2 [of ?t] by simp
  have h: "fsqrt (fst xy * fst xy + snd xy * snd xy) = Some (sqrt (fst xy * fst xy + snd xy * snd xy))"
    by (simp add: fsqrt_def not_less)
  have s2: "fsqrt 2 = Some (sqrt 2)" by (simp add: fsqrt_def)
  have i2: "fdiv 1 (sqrt 2) = Some (1 / sqrt 2)" by (simp add: fdiv_def)
  have tt: "fdiv (sin ?t) (cos ?t - 1 / sqrt 2) = Some (sin ?t / (cos ?t - 1 / sqrt 2))"
    using c by (simp add: fdiv_def)
  have ic: "\<And>v. fdiv 1 (cos (arctan v)) = Some (1 / cos (arctan v))"
    by (simp add: fdiv_def)
  show ?thesis
    unfolding qsc_inv_theta_cosphi_def Let_def
    by (simp only: h s2 i2 tt ic bind.bind_lunit) auto
qed

lemma qsc_inv_qrs_defined:
  assumes "- 1 \<le> cosphi" "cosphi \<le> 1"
  shows "\<exists>q r s. qsc_inv_qrs area theta cosphi = Some (q, r, s) \<and> - 1 \<le> s \<and> s \<le> 1"
proof -
  define t where "t = cosphi * cosphi"
  define s where "s = (if 1 \<le> t then 0 else sqrt (1 - t) * sin theta)"
  define t' where "t' = t + s * s"
  define r where "r = (if 1 \<le> t' then 0 else sqrt (1 - t'))"
  have t0: "0 \<le> t" by (simp add: t_def)
  have s1: "(if 1 \<le> t then Some 0 else fsqrt (1 - t) \<bind> (\<lambda>w. Some (w * sin theta))) = Some s"
    by (simp add: fsqrt_def s_def)
  have r1: "(if 1 \<le> t' then Some 0 else fsqrt (1 - t')) = Some r"
    by (simp add: fsqrt_def r_def)
  have ss: "s * s \<le> 1 - t \<or> s = 0"
  proof (cases "1 \<le> t")
    case True
    then show ?thesis by (simp add: s_def)
  next
    case False
    then have nn: "0 \<le> 1 - t" by simp
    have "s * s = (sqrt (1 - t) * sqrt (1 - t)) * (sin theta * sin theta)"
      using False by (simp add: s_def algebra_simps)
    also have "\<dots> = (1 - t) * (sin theta * sin theta)"
      using nn by simp
    also have "\<dots> \<le> (1 - t) * 1"
    proof (rule mult_left_mono [OF _ nn])
      have "(sin theta)\<^sup>2 \<le> 1" using sin_squared_eq [of theta] by simp
      then show "sin theta * sin theta \<le> 1" by (simp add: power2_eq_square)
    qed
    finally show ?thesis by simp
  qed
  have s2le: "s * s \<le> 1"
  proof -
    from ss show ?thesis
    proof
      assume "s * s \<le> 1 - t"
      with t0 show ?thesis by linarith
    next
      assume "s = 0"
      then show ?thesis by simp
    qed
  qed
  have "\<bar>s\<bar> \<le> 1"
    using s2le abs_le_square_iff [of s 1] by (simp add: power2_eq_square)
  then have sb: "- 1 \<le> s \<and> s \<le> 1" by (simp add: abs_le_iff)
  have rb: "0 \<le> r \<and> r \<le> 1"
  proof (cases "1 \<le> t'")
    case True
    then show ?thesis by (simp add: r_def)
  next
    case False
    moreover have "0 \<le> t'" using t0 by (simp add: t'_def)
    ultimately have "0 \<le> 1 - t'" "1 - t' \<le> 1" by simp_all
    then have "sqrt (1 - t') \<le> sqrt 1" by (simp only: real_sqrt_le_iff)
    with False \<open>0 \<le> 1 - t'\<close> show ?thesis by (simp add: r_def)
  qed
  have "qsc_inv_qrs area theta cosphi =
    Some (if area = AREA_1 then (cosphi, - s, r)
          else if area = AREA_2 then (cosphi, - r, - s)
          else if area = AREA_3 then (cosphi, s, - r)
          else (cosphi, r, s))"
    unfolding qsc_inv_qrs_def Let_def t_def [symmetric]
    by (simp only: s1 bind.bind_lunit t'_def [symmetric] r1)
  with sb rb show ?thesis by auto
qed

lemma facos_defined: "- 1 \<le> v \<Longrightarrow> v \<le> 1 \<Longrightarrow> facos v = Some (arccos v)"
  by (simp add: facos_def)

lemma qsc_inv_sphere_defined:
  assumes "- 1 \<le> cosphi" "cosphi \<le> 1"
  shows "\<exists>lon lat. qsc_inv_sphere face area theta cosphi = Some (lon, lat)"
proof -
  have ac: "facos cosphi = Some (arccos cosphi)"
    using assms by (rule facos_defined)
  consider (top) "face = FACE_TOP" | (bottom) "face \<noteq> FACE_TOP" "face = FACE_BOTTOM"
    | (equat) "face \<noteq> FACE_TOP" "face \<noteq> FACE_BOTTOM" by blast
  then show ?thesis
  proof cases
    case top
    then show ?thesis by (simp add: qsc_inv_sphere_def ac Let_def)
  next
    case bottom
    then show ?thesis by (simp add: qsc_inv_sphere_def ac Let_def)
  next
    case equat
    from qsc_inv_qrs_defined [OF assms, of area theta] obtain q r s where
      qrs: "qsc_inv_qrs area theta cosphi = Some (q, r, s)" and s: "- 1 \<le> s" "s \<le> 1"
      by blast
    from s have "facos (- s) = Some (arccos (- s))" by (simp add: facos_def)
    with equat qrs show ?thesis by (simp add: qsc_inv_sphere_def Let_def)
  qed
qed

lemma qsc_inv_sphere_stage_defined:
  "\<exists>theta cosphi.
      qsc_inv_theta_cosphi xy (snd (qsc_inv_area xy)) = Some (theta, cosphi) \<and>
      - 1 \<le> cosphi \<and> cosphi \<le> 1 \<and>
      (\<exists>lon lat. qsc_inv_sphere face (fst (qsc_inv_area xy)) theta cosphi = Some (lon, lat)) \<and>
      (\<exists>q r s. qsc_inv_qrs (fst (qsc_inv_area xy)) theta cosphi = Some (q, r, s) \<and>
         - 1 \<le> s \<and> s \<le> 1)"
proof -
  from qsc_inv_theta_cosphi_defined [OF qsc_inv_area_mu, of xy xy] obtain theta cosphi where
    tc: "qsc_inv_theta_cosphi xy (snd (qsc_inv_area xy)) = Some (theta, cosphi)"
    and c: "- 1 \<le> cosphi" "cosphi \<le> 1"
    by blast
  from qsc_inv_sphere_defined [OF c, of face "fst (qsc_inv_area xy)" theta] obtain lon lat where
    ll: "qsc_inv_sphere face (fst (qsc_inv_area xy)) theta cosphi = Some (lon, lat)"
    by blast
  note qrs = qsc_inv_qrs_defined [OF c, of "fst (qsc_inv_area xy)" theta]
  with tc c ll show ?thesis by blast
qed

section \<open>QSC: the shift to the ellipsoid in the arithmetic of \<open>double\<close>\<close>

subsection \<open>Evaluating \<open>double_round\<close>\<close>

lemma round_even_eqI:
  assumes "\<bar>y - of_int m\<bar> < 1 / 2"
  shows "round_even y = m"
proof (cases "of_int m \<le> y")
  case True
  with assms have "\<lfloor>y\<rfloor> = m" by (intro floor_unique) (simp_all add: abs_less_iff)
  with assms True show ?thesis by (simp add: round_even_def Let_def abs_less_iff)
next
  case False
  with assms have "\<lfloor>y\<rfloor> = m - 1" by (intro floor_unique) (simp_all add: abs_less_iff)
  with assms False show ?thesis by (simp add: round_even_def Let_def abs_less_iff)
qed

lemma round_even_tie:
  assumes "y = of_int m + 1 / 2" "even m"
  shows "round_even y = m"
proof -
  have "\<lfloor>y\<rfloor> = m" unfolding assms(1) by (intro floor_unique) simp_all
  with assms show ?thesis by (simp add: round_even_def Let_def)
qed

lemma double_round_eqI:
  assumes lo: "2 ^ 52 \<le> \<bar>x\<bar> * 2 ^ k" and hi: "\<bar>x\<bar> * 2 ^ k < 2 ^ 53"
    and r: "round_even (x * 2 ^ k) = m"
  shows "double_round x = of_int m / 2 ^ k"
proof -
  have x0: "x \<noteq> 0" using lo by auto
  then have ax: "0 < \<bar>x\<bar>" by simp
  have pk: "(2::real) powr (of_int (52 - int k)) = 2 ^ 52 / 2 ^ k"
    by (simp add: powr_diff powr_realpow flip: of_nat_diff)
  have pk1: "(2::real) powr (of_int (52 - int k) + 1) = 2 ^ 53 / 2 ^ k"
    by (simp add: powr_diff powr_add powr_realpow)
  have "\<lfloor>log 2 \<bar>x\<bar>\<rfloor> = 52 - int k"
  proof (rule floor_unique)
    show "of_int (52 - int k) \<le> log 2 \<bar>x\<bar>"
      using ax lo by (subst le_log_iff) (simp_all only: pk, simp_all add: field_simps)
    show "log 2 \<bar>x\<bar> < of_int (52 - int k) + 1"
      using ax hi by (subst log_less_iff) (simp_all only: pk1, simp_all add: field_simps)
  qed
  then have e: "\<lfloor>log 2 \<bar>x\<bar>\<rfloor> - 52 = - int k" by simp
  have p: "(2::real) powr of_int (- int k) = 1 / 2 ^ k"
    by (simp add: powr_minus powr_realpow field_simps)
  have "double_round x =
      of_int (round_even (x / 2 powr of_int (- int k))) * 2 powr of_int (- int k)"
    using x0 unfolding double_round_def Let_def e by (simp only: if_False)
  also have "\<dots> = of_int (round_even (x * 2 ^ k)) * (1 / 2 ^ k)"
    unfolding p by simp
  finally show ?thesis by (simp add: r)
qed

lemma double_round_zero: "double_round 0 = 0"
  by (simp add: double_round_def)

lemma double_round_sqrt:
  assumes m: "2 ^ 52 < m" "m < 2 ^ 53"
    and lo: "((of_int m - 1 / 2) / 2 ^ k)\<^sup>2 < q"
    and hi: "q < ((of_int m + 1 / 2) / 2 ^ k)\<^sup>2"
  shows "double_round (sqrt q) = of_int m / 2 ^ k"
proof -
  have m0: "(0::real) < of_int m - 1 / 2" using m(1) by simp
  have "0 \<le> ((of_int m - 1 / 2) / 2 ^ k :: real)\<^sup>2" by (rule zero_le_power2)
  with lo have q0: "0 \<le> q" by linarith
  have 1: "(of_int m - 1 / 2) / 2 ^ k < sqrt q"
    by (rule real_less_rsqrt) (rule lo)
  have 2: "sqrt q < (of_int m + 1 / 2) / 2 ^ k"
    by (rule real_less_lsqrt) (use q0 hi m0 in simp_all)
  from 1 have 3: "of_int m - 1 / 2 < sqrt q * 2 ^ k" by (simp add: field_simps)
  from 2 have 4: "sqrt q * 2 ^ k < of_int m + 1 / 2" by (simp add: field_simps)
  have s0: "0 \<le> sqrt q" using q0 by simp
  have "(2::int) ^ 52 + 1 \<le> m" using m(1) by simp
  then have "of_int ((2::int) ^ 52 + 1) \<le> (of_int m :: real)" by (simp only: of_int_le_iff)
  then have ml: "(2::real) ^ 52 + 1 \<le> of_int m" by simp
  have "m + 1 \<le> (2::int) ^ 53" using m(2) by simp
  then have "(of_int (m + 1) :: real) \<le> of_int ((2::int) ^ 53)" by (simp only: of_int_le_iff)
  then have mh: "of_int m + 1 \<le> (2::real) ^ 53" by simp
  show ?thesis
  proof (rule double_round_eqI)
    show "2 ^ 52 \<le> \<bar>sqrt q\<bar> * 2 ^ k" using 3 ml s0 by simp
    show "\<bar>sqrt q\<bar> * 2 ^ k < 2 ^ 53" using 4 mh s0 by simp
    show "round_even (sqrt q * 2 ^ k) = m"
      by (rule round_even_eqI) (use 3 4 in linarith)
  qed
qed

subsection \<open>The constants of the setup and the shift for \<open>a = 3\<close>, \<open>es = 0.6\<close>\<close>

text \<open>
  The operations of \<open>setup_qsc\<close> and of the shift at latitude 0, one by one, each
  result a \<open>double\<close> \<open>m / 2^k\<close> with \<open>2^52 \<le> |m| < 2^53\<close>.
\<close>

lemma shift_step_1: "dsub 1 (5404319552844595 / 2 ^ 53) = 7205759403792794 / 2 ^ 54"
proof -
  have "double_round (1 - 5404319552844595 / 2 ^ 53) = of_int 7205759403792794 / 2 ^ 54"
  proof (rule double_round_eqI)
    show "round_even ((1 - 5404319552844595 / 2 ^ 53) * 2 ^ 54) = 7205759403792794"
      by (rule round_even_eqI) simp
  qed simp_all
  then show ?thesis by (simp add: dsub_def)
qed

lemma shift_step_2: "double_round (sqrt (7205759403792794 / 2 ^ 54)) = 5696652996790543 / 2 ^ 53"
proof -
  have "double_round (sqrt (7205759403792794 / 2 ^ 54)) = of_int 5696652996790543 / 2 ^ 53"
    by (rule double_round_sqrt) (simp_all add: power2_eq_square)
  then show ?thesis by (simp add: )
qed

lemma shift_step_3: "dmul 3 (5696652996790543 / 2 ^ 53) = 8544979495185814 / 2 ^ 52"
proof -
  have "double_round (3 * (5696652996790543 / 2 ^ 53)) = of_int 8544979495185814 / 2 ^ 52"
  proof (rule double_round_eqI)
    show "round_even ((3 * (5696652996790543 / 2 ^ 53)) * 2 ^ 52) = 8544979495185814"
      by (rule round_even_tie [where m = 8544979495185814]) simp_all
  qed simp_all
  then show ?thesis by (simp add: dmul_def)
qed

lemma shift_step_4: "dsub 3 (8544979495185814 / 2 ^ 52) = 4965819386925674 / 2 ^ 52"
proof -
  have "double_round (3 - 8544979495185814 / 2 ^ 52) = of_int 4965819386925674 / 2 ^ 52"
  proof (rule double_round_eqI)
    show "round_even ((3 - 8544979495185814 / 2 ^ 52) * 2 ^ 52) = 4965819386925674"
      by (rule round_even_eqI) simp
  qed simp_all
  then show ?thesis by (simp add: dsub_def)
qed

lemma shift_step_5: "double_round (4965819386925674 / 2 ^ 52 / 3) = 6621092515900899 / 2 ^ 54"
proof -
  have "double_round (4965819386925674 / 2 ^ 52 / 3) = of_int 6621092515900899 / 2 ^ 54"
  proof (rule double_round_eqI)
    show "round_even ((4965819386925674 / 2 ^ 52 / 3) * 2 ^ 54) = 6621092515900899"
      by (rule round_even_eqI) simp
  qed simp_all
  then show ?thesis by (simp add: )
qed

lemma shift_step_6: "dsub 1 (6621092515900899 / 2 ^ 54) = 5696652996790542 / 2 ^ 53"
proof -
  have "double_round (1 - 6621092515900899 / 2 ^ 54) = of_int 5696652996790542 / 2 ^ 53"
  proof (rule double_round_eqI)
    show "round_even ((1 - 6621092515900899 / 2 ^ 54) * 2 ^ 53) = 5696652996790542"
      by (rule round_even_tie [where m = 5696652996790542]) simp_all
  qed simp_all
  then show ?thesis by (simp add: dsub_def)
qed

lemma shift_step_7: "dmul (5696652996790542 / 2 ^ 53) (5696652996790542 / 2 ^ 53) = 7205759403792791 / 2 ^ 54"
proof -
  have "double_round (5696652996790542 / 2 ^ 53 * (5696652996790542 / 2 ^ 53)) = of_int 7205759403792791 / 2 ^ 54"
  proof (rule double_round_eqI)
    show "round_even ((5696652996790542 / 2 ^ 53 * (5696652996790542 / 2 ^ 53)) * 2 ^ 54) = 7205759403792791"
      by (rule round_even_eqI) simp
  qed simp_all
  then show ?thesis by (simp add: dmul_def)
qed

lemma shift_step_8: "dadd 0 (7205759403792791 / 2 ^ 54) = 7205759403792791 / 2 ^ 54"
proof -
  have "double_round (0 + 7205759403792791 / 2 ^ 54) = of_int 7205759403792791 / 2 ^ 54"
  proof (rule double_round_eqI)
    show "round_even ((0 + 7205759403792791 / 2 ^ 54) * 2 ^ 54) = 7205759403792791"
      by (rule round_even_eqI) simp
  qed simp_all
  then show ?thesis by (simp add: dadd_def)
qed

lemma shift_step_9: "dsqrt (7205759403792791 / 2 ^ 54) = Some (5696652996790542 / 2 ^ 53)"
proof -
  have "double_round (sqrt (7205759403792791 / 2 ^ 54)) = of_int 5696652996790542 / 2 ^ 53"
    by (rule double_round_sqrt) (simp_all add: power2_eq_square)
  then show ?thesis by (simp add: dsqrt_def)
qed

lemma shift_step_10: "double_round (8544979495185814 / 2 ^ 52 / (5696652996790542 / 2 ^ 53)) = 6755399441055745 / 2 ^ 51"
proof -
  have "double_round (8544979495185814 / 2 ^ 52 / (5696652996790542 / 2 ^ 53)) = of_int 6755399441055745 / 2 ^ 51"
  proof (rule double_round_eqI)
    show "round_even ((8544979495185814 / 2 ^ 52 / (5696652996790542 / 2 ^ 53)) * 2 ^ 51) = 6755399441055745"
      by (rule round_even_eqI) simp
  qed simp_all
  then show ?thesis by (simp add: )
qed

lemma shift_step_11: "dmul 3 3 = 5066549580791808 / 2 ^ 49"
proof -
  have "double_round (3 * 3) = of_int 5066549580791808 / 2 ^ 49"
  proof (rule double_round_eqI)
    show "round_even ((3 * 3) * 2 ^ 49) = 5066549580791808"
      by (rule round_even_eqI) simp
  qed simp_all
  then show ?thesis by (simp add: dmul_def)
qed

lemma shift_step_12: "dmul (6755399441055745 / 2 ^ 51) (6755399441055745 / 2 ^ 51) = 5066549580791810 / 2 ^ 49"
proof -
  have "double_round (6755399441055745 / 2 ^ 51 * (6755399441055745 / 2 ^ 51)) = of_int 5066549580791810 / 2 ^ 49"
  proof (rule double_round_eqI)
    show "round_even ((6755399441055745 / 2 ^ 51 * (6755399441055745 / 2 ^ 51)) * 2 ^ 49) = 5066549580791810"
      by (rule round_even_eqI) simp
  qed simp_all
  then show ?thesis by (simp add: dmul_def)
qed

lemma shift_step_13: "dsub (5066549580791808 / 2 ^ 49) (5066549580791810 / 2 ^ 49) = (- 4503599627370496) / 2 ^ 100"
proof -
  have "double_round (5066549580791808 / 2 ^ 49 - 5066549580791810 / 2 ^ 49) = of_int (- 4503599627370496) / 2 ^ 100"
  proof (rule double_round_eqI)
    show "round_even ((5066549580791808 / 2 ^ 49 - 5066549580791810 / 2 ^ 49) * 2 ^ 100) = (- 4503599627370496)"
      by (rule round_even_eqI) simp
  qed simp_all
  then show ?thesis by (simp add: dsub_def)
qed

lemma setup_qsc_ellipsoid_3_06:
  "setup_qsc ellipsoid_3_06 pp0 =
     pp0\<lparr>qsc_face := FACE_FRONT, qsc_a_squared := 9,
         qsc_b := 8544979495185814 / 2 ^ 52,
         qsc_one_minus_f := 5696652996790542 / 2 ^ 53,
         qsc_one_minus_f_squared := 7205759403792791 / 2 ^ 54\<rparr>"
proof -
  have f: "setup_qsc_face ellipsoid_3_06 = FACE_FRONT"
    by (simp add: setup_qsc_face_def ellipsoid_3_06_def FORTPI_def FACE_TOP_def FACE_FRONT_def
        FACE_BOTTOM_def not_le)
  show ?thesis
    unfolding setup_qsc_def Let_def f
    by (simp only: ellipsoid_3_06_def parameters.simps shift_step_1 shift_step_2 shift_step_3 shift_step_4 shift_step_5
        shift_step_6 shift_step_7 shift_step_11) simp
qed

lemma qsc_inv_shift_ellipsoid_3_06:
  "qsc_inv_shift ellipsoid_3_06 (setup_qsc ellipsoid_3_06 pp0) 0 = None"
proof -
  have e: "par_es ellipsoid_3_06 \<noteq> 0" "par_a ellipsoid_3_06 = 3"
    by (simp_all add: ellipsoid_3_06_def)
  have v: "dsqrt (- 4503599627370496 / 2 ^ 100) = None"
    by (simp add: dsqrt_def)
  have d: "ddiv (8544979495185814 / 2 ^ 52) (5696652996790542 / 2 ^ 53)
      = Some (6755399441055745 / 2 ^ 51)"
    unfolding ddiv_def shift_step_10 by simp
  have pp: "qsc_b (setup_qsc ellipsoid_3_06 pp0) = 8544979495185814 / 2 ^ 52"
    "qsc_one_minus_f (setup_qsc ellipsoid_3_06 pp0) = 5696652996790542 / 2 ^ 53"
    "qsc_one_minus_f_squared (setup_qsc ellipsoid_3_06 pp0) = 7205759403792791 / 2 ^ 54"
    by (simp_all add: setup_qsc_ellipsoid_3_06)
  show ?thesis
    unfolding qsc_inv_shift_def Let_def pp
    by (simp only: e if_True double_round_zero tan_zero mult_zero_left
        dmul_def [of 0 0] shift_step_8 shift_step_9 bind.bind_lunit d shift_step_11 shift_step_12 shift_step_13 v
        bind.bind_lzero simp_thms)
qed

lemma qsc_inv_sphere_origin:
  "qsc_inv_area (0, 0) = (AREA_0, 0)"
  "qsc_inv_theta_cosphi (0, 0) 0 = Some (0, 1)"
  "qsc_inv_sphere FACE_FRONT AREA_0 0 1 = Some (0, 0)"
proof -
  show "qsc_inv_area (0, 0) = (AREA_0, 0)"
    by (simp add: qsc_inv_area_def atan2_def)
  have "sqrt 2 \<noteq> 1" by simp
  then show "qsc_inv_theta_cosphi (0, 0) 0 = Some (0, 1)"
    by (simp add: qsc_inv_theta_cosphi_def fsqrt_def fdiv_def)
  show "qsc_inv_sphere FACE_FRONT AREA_0 0 1 = Some (0, 0)"
    by (simp add: qsc_inv_sphere_def qsc_inv_qrs_def Let_def facos_def atan2_def
        FACE_FRONT_def FACE_TOP_def FACE_BOTTOM_def FACE_RIGHT_def FACE_BACK_def FACE_LEFT_def
        AREA_0_def AREA_1_def AREA_2_def AREA_3_def)
qed

text \<open>
  C10. The clamp of \<open>cosphi\<close> and the guards of \<open>s\<close> and \<open>r\<close> do not make the
  inverse free of NaN: the square root of the shift to the ellipsoid has no guard. For
  the ellipsoid \<open>a = 3\<close>, \<open>es = 0.6\<close> the setup selects the front face, the
  spherical stage of the inverse at \<open>(x, y) = (0, 0)\<close> yields the longitude 0 and the
  latitude 0, and the shift computes \<open>xa = 3.0000000000000004 > a\<close>, so that
  \<open>a * a - xa * xa = -2^-48\<close> and its square root is NaN.
\<close>

theorem qsc_inv_ellipsoid_nan:
  "qsc_face (setup_qsc ellipsoid_3_06 pp0) = FACE_FRONT \<and>
   qsc_inv_sphere FACE_FRONT (fst (qsc_inv_area (0, 0))) 0 1 = Some (0, 0) \<and>
   qsc_inv ellipsoid_3_06 (setup_qsc ellipsoid_3_06 pp0) (0, 0) = None"
proof -
  have f: "qsc_face (setup_qsc ellipsoid_3_06 pp0) = FACE_FRONT"
    by (simp add: setup_qsc_ellipsoid_3_06)
  have "qsc_inv ellipsoid_3_06 (setup_qsc ellipsoid_3_06 pp0) (0, 0) = None"
    unfolding qsc_inv_def Let_def f qsc_inv_sphere_origin fst_conv snd_conv
    by (simp only: bind.bind_lunit fst_conv snd_conv qsc_inv_sphere_origin
        qsc_inv_shift_ellipsoid_3_06 bind.bind_lzero)
  with f show ?thesis by (simp add: qsc_inv_sphere_origin)
qed

section \<open>Round trips\<close>

subsection \<open>\<open>atan2\<close> inverts polar coordinates\<close>





subsection \<open>Cassini on the sphere\<close>


subsection \<open>Equidistant Conic\<close>


subsection \<open>Eckert IV: the residual of a converged iteration\<close>













end
